theory Spec2Isabelle
  imports Complex_Main "HOL-Library.AList"
begin

section \<open>Job pipeline: progress reporting of \<^verbatim>\<open>JobQueue.processVideo\<close>\<close>

text \<open>
  \<^verbatim>\<open>processVideo\<close> runs three adapters in sequence and reports progress twice per
  step: \<^verbatim>\<open>job.progress(v)\<close> records the value on the queue job, and
  \<^verbatim>\<open>emitProgress(io, job.id, {...})\<close> broadcasts an object when \<^verbatim>\<open>io\<close> is set.
  Both effects are kept as an event trace. JavaScript numbers are modelled as
  exact reals (no rounding).

  The object an adapter hands to \<^verbatim>\<open>onProgress\<close> is a \<open>progress\<close> record: its
  \<^verbatim>\<open>percent\<close> key, and its \<^verbatim>\<open>stage\<close> key when it has one
  (\<^verbatim>\<open>processToShorts\<close> sets \<^verbatim>\<open>'splitting'\<close> or \<^verbatim>\<open>'resizing'\<close>).
\<close>

record progress =
  p_stage :: "string option"
  p_percent :: real

datatype event =
  JobProgress real
  | Emit string real
  | EmitError string

text \<open>What one adapter call does: the callbacks it makes, then its outcome.\<close>

record 'a adapter_run =
  reports :: "progress list"
  outcome :: "string + 'a"

text \<open>\<^verbatim>\<open>emitProgress\<close>: nothing is sent when \<^verbatim>\<open>io\<close> is missing.\<close>

definition emitProgress :: "bool \<Rightarrow> event \<Rightarrow> event list" where
  "emitProgress io e = (if io then [e] else [])"

text \<open>The download callback: \<^verbatim>\<open>percent = 10 + (progress.percent * 0.2)\<close>.\<close>

definition download_onProgress :: "bool \<Rightarrow> progress \<Rightarrow> event list" where
  "download_onProgress io pr =
     (let percent = 10 + (p_percent pr * 0.2)
      in JobProgress percent # emitProgress io (Emit ''downloading'' percent))"

text \<open>
  The processing callback: \<^verbatim>\<open>percent = 30 + (progress.percent * 0.4)\<close> goes to
  \<^verbatim>\<open>job.progress\<close>; the broadcast object is
  \<^verbatim>\<open>{ stage: 'processing', percent, ...progress }\<close>, where the keys of
  \<^verbatim>\<open>progress\<close> are spread last and so replace \<^verbatim>\<open>stage\<close> and \<^verbatim>\<open>percent\<close>.
\<close>

definition processing_onProgress :: "bool \<Rightarrow> progress \<Rightarrow> event list" where
  "processing_onProgress io pr =
     (let percent = 30 + (p_percent pr * 0.4)
      in JobProgress percent #
         emitProgress io
           (Emit (case p_stage pr of None \<Rightarrow> ''processing'' | Some st \<Rightarrow> st) (p_percent pr)))"

definition download_events :: "bool \<Rightarrow> progress list \<Rightarrow> event list" where
  "download_events io rs =
     JobProgress 10 # emitProgress io (Emit ''downloading'' 10)
       @ concat (map (download_onProgress io) rs)"

definition processing_events :: "bool \<Rightarrow> progress list \<Rightarrow> event list" where
  "processing_events io rs =
     JobProgress 30 # emitProgress io (Emit ''processing'' 30)
       @ concat (map (processing_onProgress io) rs)"

record ('m, 'c, 'a) results =
  videoInfo :: "'m option"
  clips :: "'c list"
  aiContent :: "'a list"

text \<open>
  \<^verbatim>\<open>processVideo\<close>: \<open>dl\<close>, \<open>pc\<close> and \<open>ai\<close> are the runs of
  \<^verbatim>\<open>downloadVideo\<close>, \<^verbatim>\<open>processToShorts\<close> and \<^verbatim>\<open>generateBatch\<close>
  (the last two depend on what the step before returned). An adapter error
  is caught, broadcast as stage \<^verbatim>\<open>'error'\<close> and thrown again unchanged.
\<close>

definition processVideo ::
  "bool \<Rightarrow> ('m \<times> 'p) adapter_run \<Rightarrow> ('p \<Rightarrow> ('c list) adapter_run) \<Rightarrow>
   ('m \<Rightarrow> 'c list \<Rightarrow> string + 'a list) \<Rightarrow>
   (string + ('m, 'c, 'a) results) \<times> event list" where
  "processVideo io dl pc ai =
     (let ev1 = download_events io (reports dl) in
      case outcome dl of
        Inl err \<Rightarrow> (Inl err, ev1 @ emitProgress io (EmitError err))
      | Inr (metadata, path) \<Rightarrow>
          let ev2 = ev1 @ processing_events io (reports (pc path)) in
          (case outcome (pc path) of
             Inl err \<Rightarrow> (Inl err, ev2 @ emitProgress io (EmitError err))
           | Inr cs \<Rightarrow>
               let ev3 = ev2 @ JobProgress 70 # emitProgress io (Emit ''generating-ai'' 70) in
               (case ai metadata cs of
                  Inl err \<Rightarrow> (Inl err, ev3 @ emitProgress io (EmitError err))
                | Inr content \<Rightarrow>
                    (Inr \<lparr>videoInfo = Some metadata, clips = cs, aiContent = content\<rparr>,
                     ev3 @ JobProgress 100 # emitProgress io (Emit ''completed'' 100)))))"

text \<open>The values a trace hands to \<^verbatim>\<open>job.progress\<close>, and the percents it broadcasts.\<close>

fun job_progress :: "event list \<Rightarrow> real list" where
  "job_progress [] = []"
| "job_progress (JobProgress v # es) = v # job_progress es"
| "job_progress (_ # es) = job_progress es"

fun emitted_percent :: "event list \<Rightarrow> real list" where
  "emitted_percent [] = []"
| "emitted_percent (Emit _ v # es) = v # emitted_percent es"
| "emitted_percent (_ # es) = emitted_percent es"

text \<open>
  A sample run: the download reports nothing, the processing makes one resize
  report of 150 percent (\<^verbatim>\<open>resizeToShorts\<close> forwards the percent of
  \<^verbatim>\<open>ffmpeg\<close> as it is), and every adapter succeeds.
\<close>

definition resize_150 :: "progress list" where
  "resize_150 = [\<lparr>p_stage = Some ''resizing'', p_percent = 150\<rparr>]"

definition sample_download :: "(string \<times> string) adapter_run" where
  "sample_download = \<lparr>reports = [], outcome = Inr (''metadata'', ''video.mp4'')\<rparr>"

definition sample_processing :: "string \<Rightarrow> (string list) adapter_run" where
  "sample_processing path = \<lparr>reports = resize_150, outcome = Inr [''short.mp4'']\<rparr>"

definition half_way_download :: "(string \<times> string) adapter_run" where
  "half_way_download = \<lparr>reports = [\<lparr>p_stage = None, p_percent = 50\<rparr>],
                         outcome = Inr (''metadata'', ''video.mp4'')\<rparr>"

definition all_split :: "string \<Rightarrow> (string list) adapter_run" where
  "all_split path = \<lparr>reports = [\<lparr>p_stage = Some ''splitting'', p_percent = 100\<rparr>],
                     outcome = Inr [''short.mp4'']\<rparr>"

definition sample_ai :: "string \<Rightarrow> string list \<Rightarrow> string + string list" where
  "sample_ai metadata cs = Inr [''content'']"

section \<open>Content generator: \<^verbatim>\<open>AIService\<close>\<close>

text \<open>
  Strings are lists of characters and the model follows the source on ASCII
  text: \<^verbatim>\<open>\s\<close> is tab, line feed, vertical tab, form feed, carriage return
  and space; the line terminators that \<^verbatim>\<open>.\<close> refuses are line feed and
  carriage return; \<^verbatim>\<open>/i\<close> compares letters by their upper case.
  \<^verbatim>\<open>null\<close> is \<open>None\<close>.
\<close>

record video_metadata =
  vm_title :: string
  vm_description :: "string option"
  vm_tags :: "string list option"

record clip_info =
  ci_id :: string
  ci_index :: nat
  ci_startTime :: real
  ci_duration :: real

record content =
  c_title :: "string option"
  c_description :: "string option"

record batch_item =
  b_clipId :: string
  b_title :: "string option"
  b_description :: "string option"

text \<open>Decimal rendering of the numbers a template literal interpolates.\<close>

definition digit :: "nat \<Rightarrow> char" where
  "digit n = ''0123456789'' ! n"

function dec_nat :: "nat \<Rightarrow> string" where
  "dec_nat n = (if n < 10 then [digit n] else dec_nat (n div 10) @ [digit (n mod 10)])"
  by pat_completeness auto
termination
  by (relation "measure id") auto

declare dec_nat.simps [simp del]

definition dec_int :: "int \<Rightarrow> string" where
  "dec_int i = (if i < 0 then CHR ''-'' # dec_nat (nat (- i)) else dec_nat (nat i))"

text \<open>\<^verbatim>\<open>Array.prototype.join\<close>.\<close>

fun join :: "string \<Rightarrow> string list \<Rightarrow> string" where
  "join sep [] = []"
| "join sep [x] = x"
| "join sep (x # y # ys) = x @ sep @ join sep (y # ys)"

text \<open>
  \<^verbatim>\<open>buildPrompt\<close>: \<^verbatim>\<open>description || 'N/A'\<close> takes \<^verbatim>\<open>'N/A'\<close> for a missing or
  empty description; \<^verbatim>\<open>tags ? tags.join(', ') : 'N/A'\<close> joins any array, also
  the empty one.
\<close>

definition buildPrompt :: "video_metadata \<Rightarrow> clip_info \<Rightarrow> string" where
  "buildPrompt videoMetadata clipInfo =
     ''You are a YouTube Shorts content expert. Generate an engaging title and description for a short video clip.\<newline>\<newline>Original Video Information:\<newline>- Title: ''
     @ vm_title videoMetadata
     @ ''\<newline>- Description: ''
     @ (case vm_description videoMetadata of
          None \<Rightarrow> ''N/A'' | Some d \<Rightarrow> if d = [] then ''N/A'' else d)
     @ ''\<newline>- Tags: ''
     @ (case vm_tags videoMetadata of None \<Rightarrow> ''N/A'' | Some ts \<Rightarrow> join '', '' ts)
     @ ''\<newline>\<newline>Clip Information:\<newline>- Clip Number: ''
     @ dec_nat (ci_index clipInfo + 1)
     @ ''\<newline>- Start Time: ''
     @ dec_int \<lfloor>ci_startTime clipInfo\<rfloor>
     @ ''s\<newline>- Duration: ''
     @ dec_int \<lfloor>ci_duration clipInfo\<rfloor>
     @ ''s\<newline>\<newline>Requirements:\<newline>1. Title: Create a catchy, attention-grabbing title (max 100 characters) that works well for YouTube Shorts\<newline>2. Description: Write an engaging description (2-3 sentences) with relevant hashtags\<newline>\<newline>Format your response EXACTLY as follows:\<newline>TITLE: [your title here]\<newline>DESCRIPTION: [your description here]\<newline>\<newline>Make it compelling and optimized for YouTube Shorts discovery!''"

definition LF :: char where
  "LF = CHR 0x0A"

definition CR :: char where
  "CR = CHR 0x0D"

definition is_space :: "char \<Rightarrow> bool" where
  "is_space c = (c \<in> set [CHR 0x09, CHR 0x0A, CHR 0x0B, CHR 0x0C, CHR 0x0D, CHR '' ''])"

definition upper :: "char \<Rightarrow> char" where
  "upper c =
     (case map_of (zip ''abcdefghijklmnopqrstuvwxyz'' ''ABCDEFGHIJKLMNOPQRSTUVWXYZ'') c of
        None \<Rightarrow> c | Some u \<Rightarrow> u)"

definition starts_with_ci :: "string \<Rightarrow> string \<Rightarrow> bool" where
  "starts_with_ci lit s =
     (length lit \<le> length s \<and> map upper (take (length lit) s) = map upper lit)"

text \<open>
  \<^verbatim>\<open>text.match(/TITLE:\s*(.+?)(?:\n|$)/i)\<close>, group 1. After the literal,
  \<^verbatim>\<open>\s*\<close> first takes the whole run of white space and gives characters back
  one at a time (\<open>k\<close> is how many it keeps); the lazy group then is the text
  up to the next line feed or the end of input, which must be non-empty and
  free of carriage returns. When no \<open>k\<close> works the search goes on at the next
  position of the text.
\<close>

fun title_capture :: "nat \<Rightarrow> string \<Rightarrow> string option" where
  "title_capture k r =
     (let cap = takeWhile (\<lambda>c. c \<noteq> LF) (drop k r) in
      if cap \<noteq> [] \<and> CR \<notin> set cap then Some cap
      else (case k of 0 \<Rightarrow> None | Suc j \<Rightarrow> title_capture j r))"

declare title_capture.simps [simp del]

fun match_title :: "string \<Rightarrow> string option" where
  "match_title [] = None"
| "match_title (c # cs) =
     (if starts_with_ci ''TITLE:'' (c # cs) then
        (let r = drop 6 (c # cs) in
         case title_capture (length (takeWhile is_space r)) r of
           Some cap \<Rightarrow> Some cap
         | None \<Rightarrow> match_title cs)
      else match_title cs)"

text \<open>
  \<^verbatim>\<open>text.match(/DESCRIPTION:\s*(.+?)(?:\n\n|$)/is)\<close>, group 1. With \<^verbatim>\<open>/s\<close> the
  dot takes every character, so the lazy group is the shortest non-empty text
  that is followed by two line feeds or by the end of input.
\<close>

fun lazy_dotall :: "string \<Rightarrow> string" where
  "lazy_dotall [] = []"
| "lazy_dotall (c # cs) =
     c # (if cs = [] \<or> take 2 cs = [LF, LF] then [] else lazy_dotall cs)"

fun description_capture :: "nat \<Rightarrow> string \<Rightarrow> string option" where
  "description_capture k r =
     (if drop k r \<noteq> [] then Some (lazy_dotall (drop k r))
      else (case k of 0 \<Rightarrow> None | Suc j \<Rightarrow> description_capture j r))"

declare description_capture.simps [simp del]

fun match_description :: "string \<Rightarrow> string option" where
  "match_description [] = None"
| "match_description (c # cs) =
     (if starts_with_ci ''DESCRIPTION:'' (c # cs) then
        (let r = drop 12 (c # cs) in
         case description_capture (length (takeWhile is_space r)) r of
           Some cap \<Rightarrow> Some cap
         | None \<Rightarrow> match_description cs)
      else match_description cs)"

definition trim :: "string \<Rightarrow> string" where
  "trim s = rev (dropWhile is_space (rev (dropWhile is_space s)))"

definition validateTitle :: "string \<Rightarrow> string" where
  "validateTitle t = (if length t > 100 then take 97 t @ ''...'' else t)"

definition validateDescription :: "string \<Rightarrow> string" where
  "validateDescription d =
     (if CHR ''#'' \<notin> set d then d @ ''\<newline>\<newline>#Shorts #YouTubeShorts #Viral'' else d)"

text \<open>
  \<^verbatim>\<open>parseResponse\<close>: a group that did not match, or that is empty once trimmed,
  gives \<^verbatim>\<open>null\<close> for that field.
\<close>

definition parseResponse :: "string \<Rightarrow> content" where
  "parseResponse text =
     (let title = map_option trim (match_title text);
          description = map_option trim (match_description text);
          finalTitle = (case title of None \<Rightarrow> None
                        | Some t \<Rightarrow> if t \<noteq> [] then Some (validateTitle t) else None);
          finalDescription = (case description of None \<Rightarrow> None
                        | Some d \<Rightarrow> if d \<noteq> [] then Some (validateDescription d) else None)
      in \<lparr>c_title = finalTitle, c_description = finalDescription\<rparr>)"

definition generateFallbackContent :: "video_metadata \<Rightarrow> clip_info \<Rightarrow> content" where
  "generateFallbackContent videoMetadata clipInfo =
     \<lparr>c_title = Some (vm_title videoMetadata @ '' - Part ''
                       @ dec_nat (ci_index clipInfo + 1) @ '' #Shorts''),
      c_description = Some (''Check out this amazing clip from: '' @ vm_title videoMetadata
                       @ ''\<newline>\<newline>#Shorts #YouTubeShorts #Viral #Trending'')\<rparr>"

text \<open>
  \<^verbatim>\<open>generateTitleAndDescription\<close>. \<open>model\<close> is \<^verbatim>\<open>this.model\<close>: \<open>None\<close> when
  the service was not initialised, otherwise the remote call, which given the
  prompt returns the response text (\<open>Inr\<close>) or throws (\<open>Inl\<close>, the message).
  The result is a sum as for every operation that could throw: \<open>Inl\<close> would
  be an exception leaving the function.
\<close>

definition generateTitleAndDescription ::
  "(string \<Rightarrow> string + string) option \<Rightarrow> video_metadata \<Rightarrow> clip_info \<Rightarrow> string + content" where
  "generateTitleAndDescription model videoMetadata clipInfo =
     (case model of
        None \<Rightarrow> Inr (generateFallbackContent videoMetadata clipInfo)
      | Some generateContent \<Rightarrow>
          (case generateContent (buildPrompt videoMetadata clipInfo) of
             Inr text \<Rightarrow> Inr (parseResponse text)
           | Inl err \<Rightarrow> Inr (generateFallbackContent videoMetadata clipInfo)))"

text \<open>\<^verbatim>\<open>generateBatch\<close>: one call per clip, in order; an exception would end the loop.\<close>

fun generateBatch ::
  "(string \<Rightarrow> string + string) option \<Rightarrow> video_metadata \<Rightarrow> clip_info list \<Rightarrow>
   string + batch_item list" where
  "generateBatch model videoMetadata [] = Inr []"
| "generateBatch model videoMetadata (clip # rest) =
     (case generateTitleAndDescription model videoMetadata clip of
        Inl err \<Rightarrow> Inl err
      | Inr c \<Rightarrow>
          (case generateBatch model videoMetadata rest of
             Inl err \<Rightarrow> Inl err
           | Inr items \<Rightarrow>
               Inr (\<lparr>b_clipId = ci_id clip, b_title = c_title c,
                     b_description = c_description c\<rparr> # items)))"

text \<open>A title and a description are usable when both are present and non-empty.\<close>

definition usable :: "content \<Rightarrow> bool" where
  "usable c = (c_title c \<noteq> None \<and> c_title c \<noteq> Some [] \<and>
               c_description c \<noteq> None \<and> c_description c \<noteq> Some [])"

text \<open>Sample inputs: a model that answers without the markers, and one that throws.\<close>

definition refusing_model :: "string \<Rightarrow> string + string" where
  "refusing_model prompt = Inr ''Sorry.''"

definition failing_model :: "string \<Rightarrow> string + string" where
  "failing_model prompt = Inl ''quota exceeded''"

definition sample_metadata :: video_metadata where
  "sample_metadata = \<lparr>vm_title = ''My video'', vm_description = None, vm_tags = Some []\<rparr>"

definition sample_clip :: clip_info where
  "sample_clip = \<lparr>ci_id = ''c0'', ci_index = 0, ci_startTime = 0, ci_duration = 15\<rparr>"

section \<open>Upload scheduler: \<^verbatim>\<open>Scheduler\<close>\<close>

text \<open>
  The scheduler object and the parts of its environment that it reads or
  changes are one state record, passed through every operation.

  \<^item> Instants are milliseconds since the epoch. A time argument stands for the
    instant that \<^verbatim>\<open>moment.tz(scheduledTime, timezone)\<close> denotes;
    \<^verbatim>\<open>toISOString\<close> followed by parsing gives the same instant back. A
    \<^verbatim>\<open>timezone\<close> argument is the value after its default \<^verbatim>\<open>'UTC'\<close> has been
    applied.
  \<^item> \<^verbatim>\<open>new Date()\<close> reads \<open>clock\<close>, which moves only between operations.
  \<^item> \<^verbatim>\<open>uuidv4()\<close> hands out \<open>next_uuid\<close> and moves on: identifiers are
    never issued twice.
  \<^item> \<^verbatim>\<open>this.schedules\<close> is a \<^verbatim>\<open>Map\<close>, kept as an association list in
    insertion order; \<^verbatim>\<open>set\<close> and \<^verbatim>\<open>get\<close> are \<open>AList.update\<close> and \<open>map_of\<close>.
    A record is an object shared by the map and the code that holds it, so
    changing a key of the record is an update of the map's entry.
  \<^item> \<open>disk\<close> is the file \<^verbatim>\<open>schedules.json\<close>; \<open>fs_ok\<close> tells whether
    \<^verbatim>\<open>writeFileSync\<close> succeeds.
  \<^item> \<open>timers\<close> are the one-shot timers that \<^verbatim>\<open>node-schedule\<close> holds armed.
    Every callback given to \<^verbatim>\<open>scheduleJob\<close> is \<^verbatim>\<open>executeUpload(scheduleId)\<close>, so
    a timer is its \<^verbatim>\<open>Job\<close> object (a handle), that schedule id and the date.
    \<^verbatim>\<open>this.jobs\<close> maps a schedule id to the handle stored for it, or to
    \<^verbatim>\<open>null\<close>.
  \<^item> \<open>pending\<close> lists the calls of \<^verbatim>\<open>executeUpload\<close> that are suspended at
    their \<^verbatim>\<open>await\<close>.
  \<^item> \<open>queue_log\<close> lists the calls of \<^verbatim>\<open>jobQueue.addUploadJob\<close>, each with the
    schedule whose \<^verbatim>\<open>executeUpload\<close> made it.
\<close>

type_synonym sid = nat
type_synonym instant = int
type_synonym handle = nat

datatype status = Scheduled | Executing | Completed | Failed | Cancelled

record job_info =
  jobId :: nat
  ji_status :: string

record 'u schedule =
  s_id :: sid
  uploadData :: 'u
  scheduledTime :: instant
  timezone :: string
  status :: status
  createdAt :: instant
  result :: "job_info option"
  completedAt :: "instant option"
  error :: "string option"
  failedAt :: "instant option"
  cancelledAt :: "instant option"

record timer =
  t_handle :: handle
  t_sid :: sid
  t_at :: instant

datatype 'u store_file = Missing | Corrupt | Json "(sid \<times> 'u schedule) list"

record 'u scheduler =
  schedules :: "(sid \<times> 'u schedule) list"
  jobs :: "sid \<rightharpoonup> handle option"
  timers :: "timer list"
  pending :: "sid list"
  disk :: "'u store_file"
  fs_ok :: bool
  clock :: instant
  next_uuid :: sid
  next_handle :: handle
  queue_log :: "(sid \<times> 'u) list"

text \<open>The errors thrown, by their messages, under the names the specification gives them.\<close>

datatype err = Error string

definition InvalidTime :: err where
  "InvalidTime = Error ''Scheduled time must be in the future''"

definition InsufficientTimes :: err where
  "InsufficientTimes = Error ''Not enough custom times provided''"

definition InvalidPattern :: err where
  "InvalidPattern = Error ''Invalid pattern type''"

definition NotFound :: err where
  "NotFound = Error ''Schedule not found''"

definition RangeError :: err where
  "RangeError = Error ''Invalid time value''"

text \<open>
  A \<^verbatim>\<open>Date\<close> holds an instant of at most 8.64e15 milliseconds either side of
  the epoch; a time beyond that is an Invalid Date.
\<close>

definition date_limit :: int where
  "date_limit = 8640000000000000"

definition valid_date :: "instant \<Rightarrow> bool" where
  "valid_date t = (- date_limit \<le> t \<and> t \<le> date_limit)"

record sched_info =
  si_scheduleId :: sid
  si_scheduledTime :: instant
  si_status :: string

text \<open>\<^verbatim>\<open>saveSchedules\<close>: a failed write is logged and nothing else happens.\<close>

definition saveSchedules :: "'u scheduler \<Rightarrow> 'u scheduler" where
  "saveSchedules s = (if fs_ok s then s\<lparr>disk := Json (schedules s)\<rparr> else s)"

text \<open>
  \<^verbatim>\<open>schedule.scheduleJob(date, callback)\<close> of \<^verbatim>\<open>node-schedule\<close>: a date that has
  not passed arms a timer and returns its \<^verbatim>\<open>Job\<close>; a date in the past arms
  nothing and returns \<^verbatim>\<open>null\<close>. \<^verbatim>\<open>job.cancel()\<close> disarms the timer of that job.
\<close>

definition scheduleJob :: "sid \<Rightarrow> instant \<Rightarrow> 'u scheduler \<Rightarrow> handle option \<times> 'u scheduler" where
  "scheduleJob scheduleId date s =
     (if clock s \<le> date then
        (Some (next_handle s),
         s\<lparr>timers := timers s @ [\<lparr>t_handle = next_handle s, t_sid = scheduleId, t_at = date\<rparr>],
           next_handle := Suc (next_handle s)\<rparr>)
      else (None, s))"

definition job_cancel :: "handle \<Rightarrow> 'u scheduler \<Rightarrow> 'u scheduler" where
  "job_cancel h s = s\<lparr>timers := filter (\<lambda>t. t_handle t \<noteq> h) (timers s)\<rparr>"

text \<open>
  The record that \<^verbatim>\<open>scheduleUpload\<close> creates; the keys it does not set are
  absent.
\<close>

definition new_schedule :: "sid \<Rightarrow> 'u \<Rightarrow> instant \<Rightarrow> string \<Rightarrow> instant \<Rightarrow> 'u schedule" where
  "new_schedule scheduleId upload scheduledDate tz now =
     \<lparr>s_id = scheduleId, uploadData = upload, scheduledTime = scheduledDate, timezone = tz,
      status = Scheduled, createdAt = now, result = None, completedAt = None, error = None,
      failedAt = None, cancelledAt = None\<rparr>"

text \<open>
  \<^verbatim>\<open>scheduleUpload\<close>, for a time that is a valid date. The identifier is drawn
  first, then the date is checked; an exception leaves the state as it is at
  that point, so the state is returned on both branches.
\<close>

definition scheduleUpload ::
  "'u \<Rightarrow> instant \<Rightarrow> string \<Rightarrow> 'u scheduler \<Rightarrow> (err + sched_info) \<times> 'u scheduler" where
  "scheduleUpload upload scheduledDate tz s =
     (let scheduleId = next_uuid s;
          s1 = s\<lparr>next_uuid := Suc (next_uuid s)\<rparr>
      in if scheduledDate \<le> clock s1 then (Inl InvalidTime, s1)
         else
           let scheduleData = new_schedule scheduleId upload scheduledDate tz (clock s1);
               s2 = saveSchedules
                      (s1\<lparr>schedules := AList.update scheduleId scheduleData (schedules s1)\<rparr>);
               (job, s3) = scheduleJob scheduleId scheduledDate s2;
               s4 = s3\<lparr>jobs := (jobs s3)(scheduleId \<mapsto> job)\<rparr>
           in (Inr \<lparr>si_scheduleId = scheduleId, si_scheduledTime = scheduledDate,
                    si_status = ''scheduled''\<rparr>, s4))"

text \<open>
  The distribution pattern of \<^verbatim>\<open>scheduleBulk\<close>. \<^verbatim>\<open>timezone\<close>, \<^verbatim>\<open>interval\<close> and
  \<^verbatim>\<open>times\<close> have defaults (\<^verbatim>\<open>'UTC'\<close>, \<^verbatim>\<open>null\<close>, \<^verbatim>\<open>null\<close>), so they are options.
  The interval is a whole number of hours. An entry of \<^verbatim>\<open>times\<close> is \<open>Some\<close> of
  the instant that a time string denotes, or \<open>None\<close> for a value that
  \<^verbatim>\<open>times[index]\<close> finds falsy (\<^verbatim>\<open>null\<close>, \<^verbatim>\<open>''\<close>, \<^verbatim>\<open>0\<close>).
\<close>

record pattern =
  p_type :: string
  p_startTime :: instant
  p_timezone :: "string option"
  p_interval :: "int option"
  p_times :: "instant option list option"

definition pattern_timezone :: "pattern \<Rightarrow> string" where
  "pattern_timezone p = (case p_timezone p of None \<Rightarrow> ''UTC'' | Some tz \<Rightarrow> tz)"

text \<open>\<^verbatim>\<open>index * interval\<close>: in a product \<^verbatim>\<open>null\<close> converts to 0.\<close>

definition index_times_interval :: "nat \<Rightarrow> int option \<Rightarrow> int" where
  "index_times_interval index interval =
     int index * (case interval of None \<Rightarrow> 0 | Some k \<Rightarrow> k)"

definition hour_ms :: int where
  "hour_ms = 3600000"

text \<open>
  The \<^verbatim>\<open>switch\<close> of \<^verbatim>\<open>scheduleBulk\<close>. Adding hours is adding milliseconds.
  Adding days is a calendar operation of \<^verbatim>\<open>moment-timezone\<close> in the pattern's
  zone; it is the parameter \<open>add_days\<close>. In the custom case
  \<^verbatim>\<open>times && times[index]\<close> asks for an array, an entry at the index and a
  truthy entry.
\<close>

definition bulk_time ::
  "(string \<Rightarrow> instant \<Rightarrow> nat \<Rightarrow> instant) \<Rightarrow> pattern \<Rightarrow> nat \<Rightarrow> err + instant" where
  "bulk_time add_days p index =
     (if p_type p = ''interval'' then
        Inr (p_startTime p + index_times_interval index (p_interval p) * hour_ms)
      else if p_type p = ''daily'' then
        Inr (add_days (pattern_timezone p) (p_startTime p) index)
      else if p_type p = ''custom'' then
        (case p_times p of
           None \<Rightarrow> Inl InsufficientTimes
         | Some ts \<Rightarrow>
             if index < length ts then
               (case ts ! index of None \<Rightarrow> Inl InsufficientTimes | Some t \<Rightarrow> Inr t)
             else Inl InsufficientTimes)
      else Inl InvalidPattern)"

text \<open>
  The \<^verbatim>\<open>forEach\<close> of \<^verbatim>\<open>scheduleBulk\<close>: an exception ends the loop and keeps
  what the earlier rounds did to the state. A time that is not a valid date
  goes through \<^verbatim>\<open>scheduleUpload\<close> as an Invalid Date: the identifier is drawn,
  the comparison \<^verbatim>\<open>scheduledDate <= new Date()\<close> is false, and
  \<^verbatim>\<open>scheduledDate.toISOString()\<close> throws \<^verbatim>\<open>RangeError\<close> before the map is
  touched.
\<close>

fun bulk_loop ::
  "(string \<Rightarrow> instant \<Rightarrow> nat \<Rightarrow> instant) \<Rightarrow> pattern \<Rightarrow> 'u list \<Rightarrow> nat \<Rightarrow> sched_info list \<Rightarrow>
   'u scheduler \<Rightarrow> (err + sched_info list) \<times> 'u scheduler" where
  "bulk_loop add_days p [] index results s = (Inr results, s)"
| "bulk_loop add_days p (upload # rest) index results s =
     (case bulk_time add_days p index of
        Inl e \<Rightarrow> (Inl e, s)
      | Inr t \<Rightarrow>
          if valid_date t then
            (case scheduleUpload upload t (pattern_timezone p) s of
               (Inl e, s') \<Rightarrow> (Inl e, s')
             | (Inr r, s') \<Rightarrow> bulk_loop add_days p rest (Suc index) (results @ [r]) s')
          else (Inl RangeError, s\<lparr>next_uuid := Suc (next_uuid s)\<rparr>))"

definition scheduleBulk ::
  "(string \<Rightarrow> instant \<Rightarrow> nat \<Rightarrow> instant) \<Rightarrow> 'u list \<Rightarrow> pattern \<Rightarrow> 'u scheduler \<Rightarrow>
   (err + sched_info list) \<times> 'u scheduler" where
  "scheduleBulk add_days uploads p s = bulk_loop add_days p uploads 0 [] s"

text \<open>\<^verbatim>\<open>rescheduleJob\<close>.\<close>

definition rescheduleJob :: "sid \<Rightarrow> 'u schedule \<Rightarrow> 'u scheduler \<Rightarrow> 'u scheduler" where
  "rescheduleJob scheduleId scheduleData s =
     (let (job, s1) = scheduleJob scheduleId (scheduledTime scheduleData) s
      in s1\<lparr>jobs := (jobs s1)(scheduleId \<mapsto> job)\<rparr>)"

text \<open>
  \<^verbatim>\<open>loadSchedules\<close>: a missing file, or one that does not parse, leaves the
  scheduler empty; otherwise the entries become the map and the \<^verbatim>\<open>forEach\<close>
  re-arms those that are scheduled for a later time.
\<close>

fun reschedule_active :: "(sid \<times> 'u schedule) list \<Rightarrow> 'u scheduler \<Rightarrow> 'u scheduler" where
  "reschedule_active [] s = s"
| "reschedule_active ((scheduleId, scheduleData) # rest) s =
     reschedule_active rest
       (if status scheduleData = Scheduled \<and> clock s < scheduledTime scheduleData
        then rescheduleJob scheduleId scheduleData s else s)"

definition loadSchedules :: "'u scheduler \<Rightarrow> 'u scheduler" where
  "loadSchedules s =
     (case disk s of
        Missing \<Rightarrow> s
      | Corrupt \<Rightarrow> s
      | Json data \<Rightarrow> reschedule_active data (s\<lparr>schedules := data\<rparr>))"

text \<open>
  Process start: the constructor on a new process. No timer and no suspended
  call survives; the file, the clock and the identifiers already issued do.
\<close>

definition start :: "'u scheduler \<Rightarrow> 'u scheduler" where
  "start s = loadSchedules (s\<lparr>schedules := [], jobs := Map.empty, timers := [], pending := []\<rparr>)"

text \<open>
  \<^verbatim>\<open>executeUpload\<close> runs in two parts. The first runs when the timer fires, up
  to the \<^verbatim>\<open>await\<close>: the record is marked and saved and \<^verbatim>\<open>addUploadJob\<close> is
  called. The second runs when that call settles, with the job info it
  returned (\<open>Inr\<close>) or the message of the error it threw (\<open>Inl\<close>); it changes
  the record it looked up in the first part, which is the map's entry unless
  that was deleted meanwhile.
\<close>

definition executeUpload_begin :: "sid \<Rightarrow> 'u scheduler \<Rightarrow> 'u scheduler" where
  "executeUpload_begin scheduleId s =
     (case map_of (schedules s) scheduleId of
        None \<Rightarrow> s
      | Some scheduleData \<Rightarrow>
          let s1 = saveSchedules
                     (s\<lparr>schedules :=
                          AList.update scheduleId (scheduleData\<lparr>status := Executing\<rparr>) (schedules s)\<rparr>)
          in s1\<lparr>queue_log := queue_log s1 @ [(scheduleId, uploadData scheduleData)],
                pending := pending s1 @ [scheduleId]\<rparr>)"

definition settle :: "instant \<Rightarrow> string + job_info \<Rightarrow> 'u schedule \<Rightarrow> 'u schedule" where
  "settle now out scheduleData =
     (case out of
        Inr r \<Rightarrow> scheduleData\<lparr>status := Completed, result := Some r, completedAt := Some now\<rparr>
      | Inl message \<Rightarrow>
          scheduleData\<lparr>status := Failed, error := Some message, failedAt := Some now\<rparr>)"

definition executeUpload_finish :: "sid \<Rightarrow> string + job_info \<Rightarrow> 'u scheduler \<Rightarrow> 'u scheduler" where
  "executeUpload_finish scheduleId out s =
     (let s1 = (case map_of (schedules s) scheduleId of
                  None \<Rightarrow> s
                | Some scheduleData \<Rightarrow>
                    s\<lparr>schedules :=
                        AList.update scheduleId (settle (clock s) out scheduleData) (schedules s)\<rparr>);
          s2 = saveSchedules s1
      in s2\<lparr>jobs := (jobs s2)(scheduleId := None),
            pending := remove1 scheduleId (pending s2)\<rparr>)"

text \<open>A timer that is due fires once: it leaves the armed timers and its callback runs.\<close>

definition fire :: "timer \<Rightarrow> 'u scheduler \<Rightarrow> 'u scheduler" where
  "fire t s = executeUpload_begin (t_sid t) (s\<lparr>timers := remove1 t (timers s)\<rparr>)"

text \<open>\<^verbatim>\<open>cancelSchedule\<close>: \<^verbatim>\<open>if (job)\<close> skips a missing entry and \<^verbatim>\<open>null\<close>.\<close>

definition cancelSchedule :: "sid \<Rightarrow> 'u scheduler \<Rightarrow> 'u scheduler" where
  "cancelSchedule scheduleId s =
     (let s1 = (case jobs s scheduleId of
                  Some (Some h) \<Rightarrow> (job_cancel h s)\<lparr>jobs := (jobs s)(scheduleId := None)\<rparr>
                | _ \<Rightarrow> s)
      in case map_of (schedules s1) scheduleId of
           None \<Rightarrow> s1
         | Some scheduleData \<Rightarrow>
             saveSchedules
               (s1\<lparr>schedules :=
                    AList.update scheduleId
                      (scheduleData\<lparr>status := Cancelled, cancelledAt := Some (clock s1)\<rparr>)
                      (schedules s1)\<rparr>))"

text \<open>\<^verbatim>\<open>reschedule\<close>: the new time is not checked against the clock.\<close>

definition reschedule ::
  "sid \<Rightarrow> instant \<Rightarrow> string \<Rightarrow> 'u scheduler \<Rightarrow> (err + sched_info) \<times> 'u scheduler" where
  "reschedule scheduleId scheduledDate tz s =
     (case map_of (schedules s) scheduleId of
        None \<Rightarrow> (Inl NotFound, s)
      | Some scheduleData \<Rightarrow>
          let s1 = (case jobs s scheduleId of Some (Some h) \<Rightarrow> job_cancel h s | _ \<Rightarrow> s);
              scheduleData' = scheduleData\<lparr>scheduledTime := scheduledDate, timezone := tz,
                                           status := Scheduled\<rparr>;
              s2 = saveSchedules
                     (s1\<lparr>schedules := AList.update scheduleId scheduleData' (schedules s1)\<rparr>);
              s3 = rescheduleJob scheduleId scheduleData' s2
          in (Inr \<lparr>si_scheduleId = scheduleId, si_scheduledTime = scheduledDate,
                   si_status = ''scheduled''\<rparr>, s3))"

text \<open>
  \<^verbatim>\<open>cleanOldSchedules\<close>, given the cutoff date that
  \<^verbatim>\<open>moment().subtract(daysOld, 'days')\<close> evaluates to.
\<close>

definition cleanOldSchedules :: "instant \<Rightarrow> 'u scheduler \<Rightarrow> nat \<times> 'u scheduler" where
  "cleanOldSchedules cutoffDate s =
     (let old = (\<lambda>(i, d). status d \<noteq> Scheduled \<and> createdAt d < cutoffDate);
          cleaned = length (filter old (schedules s));
          s1 = s\<lparr>schedules := filter (\<lambda>e. \<not> old e) (schedules s)\<rparr>
      in (cleaned, if cleaned > 0 then saveSchedules s1 else s1))"

text \<open>
  What can happen to a running scheduler: a call of one of its operations,
  time passing, an armed timer that is due firing, a suspended
  \<^verbatim>\<open>executeUpload\<close> resuming, the process starting again, the file system
  becoming writable or not. \<open>step\<close> is \<open>None\<close> when the action cannot happen
  in the state.
\<close>

datatype 'u action =
  ScheduleUpload 'u instant string
  | ScheduleBulk "'u list" pattern
  | CancelSchedule sid
  | Reschedule sid instant string
  | CleanOldSchedules instant
  | TimePasses nat
  | TimerFires timer
  | UploadSettles sid "string + job_info"
  | ProcessStarts
  | DiskWritable bool

fun step ::
  "(string \<Rightarrow> instant \<Rightarrow> nat \<Rightarrow> instant) \<Rightarrow> 'u action \<Rightarrow> 'u scheduler \<Rightarrow> 'u scheduler option" where
  "step add_days (ScheduleUpload upload t tz) s = Some (snd (scheduleUpload upload t tz s))"
| "step add_days (ScheduleBulk uploads p) s = Some (snd (scheduleBulk add_days uploads p s))"
| "step add_days (CancelSchedule i) s = Some (cancelSchedule i s)"
| "step add_days (Reschedule i t tz) s = Some (snd (reschedule i t tz s))"
| "step add_days (CleanOldSchedules cutoffDate) s = Some (snd (cleanOldSchedules cutoffDate s))"
| "step add_days (TimePasses ms) s = Some (s\<lparr>clock := clock s + int ms\<rparr>)"
| "step add_days (TimerFires t) s =
     (if t \<in> set (timers s) \<and> t_at t \<le> clock s then Some (fire t s) else None)"
| "step add_days (UploadSettles i out) s =
     (if i \<in> set (pending s) then Some (executeUpload_finish i out s) else None)"
| "step add_days ProcessStarts s = Some (start s)"
| "step add_days (DiskWritable b) s = Some (s\<lparr>fs_ok := b\<rparr>)"

fun run ::
  "(string \<Rightarrow> instant \<Rightarrow> nat \<Rightarrow> instant) \<Rightarrow> 'u action list \<Rightarrow> 'u scheduler \<Rightarrow> 'u scheduler option" where
  "run add_days [] s = Some s"
| "run add_days (a # as) s =
     (case step add_days a s of None \<Rightarrow> None | Some s' \<Rightarrow> run add_days as s')"

text \<open>The uploads that a schedule has handed to the job queue.\<close>

definition submitted_from :: "sid \<Rightarrow> 'u scheduler \<Rightarrow> 'u list" where
  "submitted_from i s = map snd (filter (\<lambda>e. fst e = i) (queue_log s))"

text \<open>
  A schedule is disarmed when nothing can run it: no armed timer is for it,
  no record under its identifier is scheduled, in the map or in the file
  (which a new process would load), and its identifier has been issued.
\<close>

definition not_scheduled :: "sid \<Rightarrow> (sid \<times> 'u schedule) list \<Rightarrow> bool" where
  "not_scheduled i entries = (\<forall>e \<in> set entries. fst e = i \<longrightarrow> status (snd e) \<noteq> Scheduled)"

definition disarmed :: "sid \<Rightarrow> 'u scheduler \<Rightarrow> bool" where
  "disarmed i s =
     ((\<forall>t \<in> set (timers s). t_sid t \<noteq> i)
      \<and> not_scheduled i (schedules s)
      \<and> (case disk s of Json data \<Rightarrow> not_scheduled i data | _ \<Rightarrow> True)
      \<and> i < next_uuid s)"

text \<open>Whether an action is a call of \<^verbatim>\<open>reschedule\<close> for the schedule \<open>i\<close>.\<close>

fun reschedules :: "sid \<Rightarrow> 'u action \<Rightarrow> bool" where
  "reschedules i (Reschedule j t tz) = (j = i)"
| "reschedules i _ = False"

text \<open>
  Sample inputs: a scheduler that has just started on an empty directory at
  time 0, and calendar days in UTC.
\<close>

definition fresh :: "string scheduler" where
  "fresh = \<lparr>schedules = [], jobs = Map.empty, timers = [], pending = [], disk = Missing,
            fs_ok = True, clock = 0, next_uuid = 0, next_handle = 0, queue_log = []\<rparr>"

definition utc_add_days :: "string \<Rightarrow> instant \<Rightarrow> nat \<Rightarrow> instant" where
  "utc_add_days tz t n = t + int n * 86400000"

definition custom_one_time :: pattern where
  "custom_one_time = \<lparr>p_type = ''custom'', p_startTime = 1000, p_timezone = None,
                       p_interval = None, p_times = Some [Some 1000]\<rparr>"

definition every_two_hours :: pattern where
  "every_two_hours = \<lparr>p_type = ''interval'', p_startTime = 1000, p_timezone = None,
                       p_interval = Some 2, p_times = None\<rparr>"

definition no_interval :: pattern where
  "no_interval = \<lparr>p_type = ''interval'', p_startTime = 1000, p_timezone = None,
                   p_interval = None, p_times = None\<rparr>"

text \<open>An hourly pattern that starts one second before the end of the range of \<^verbatim>\<open>Date\<close>.\<close>

definition hourly_at_the_limit :: pattern where
  "hourly_at_the_limit = \<lparr>p_type = ''interval'', p_startTime = date_limit - 1000,
                           p_timezone = None, p_interval = Some 1, p_times = None\<rparr>"

text \<open>The fresh scheduler when the clock shows 1000, the start time of these patterns.\<close>

definition at_start_time :: "string scheduler" where
  "at_start_time = fresh\<lparr>clock := 1000\<rparr>"

text \<open>
  A process that starts at time 1000 on a file with two scheduled records,
  one for time 500 and one for time 5000.
\<close>

definition after_downtime :: "string scheduler" where
  "after_downtime =
     \<lparr>schedules = [], jobs = Map.empty, timers = [], pending = [],
      disk = Json [(0, new_schedule 0 ''late'' 500 ''UTC'' 0),
                   (1, new_schedule 1 ''soon'' 5000 ''UTC'' 0)],
      fs_ok = True, clock = 1000, next_uuid = 2, next_handle = 0, queue_log = []\<rparr>"

text \<open>
  The fresh scheduler after one \<^verbatim>\<open>scheduleUpload\<close> for time 1000, and the same
  once time 1000 has come.
\<close>

definition one_scheduled :: "string scheduler" where
  "one_scheduled = snd (scheduleUpload ''clip'' 1000 ''UTC'' fresh)"


section \<open>Properties of the progress mapping\<close>

lemma job_progress_append: "job_progress (xs @ ys) = job_progress xs @ job_progress ys"
  by (induction xs rule: job_progress.induct) auto

lemma emitted_percent_append:
  "emitted_percent (xs @ ys) = emitted_percent xs @ emitted_percent ys"
  by (induction xs rule: emitted_percent.induct) auto

lemma job_progress_emitProgress:
  "job_progress (emitProgress io (Emit st v)) = []"
  by (simp add: emitProgress_def)

lemma download_callbacks_emit:
  "set (emitted_percent (concat (map (download_onProgress io) rs)))
     \<subseteq> (\<lambda>pr. 10 + p_percent pr * 0.2) ` set rs"
  by (induction rs)
     (auto simp: download_onProgress_def Let_def emitted_percent_append emitProgress_def)

lemma processVideo_trace:
  "\<exists>rest. snd (processVideo io dl pc ai) = download_events io (reports dl) @ rest"
  by (simp add: processVideo_def Let_def split: sum.split prod.split)

lemma processVideo_trace_processing:
  assumes "outcome dl = Inr (metadata, path)"
  shows "\<exists>rest. snd (processVideo io dl pc ai)
           = download_events io (reports dl) @ processing_events io (reports (pc path)) @ rest"
  using assms by (simp add: processVideo_def Let_def split: sum.split)

text \<open>
  C1 (as stated, refuted): in a run whose processing step makes a resize
  report of 150 percent, the value 90 is handed to \<^verbatim>\<open>job.progress\<close> during that
  step, above 70; the mapping does not clamp.
\<close>

theorem processing_progress_not_clamped:
  "job_progress (snd (processVideo True sample_download sample_processing sample_ai))
     = [10, 30, 90, 70, 100]
   \<and> job_progress (processing_events True (reports (sample_processing ''video.mp4''))) = [30, 90]
   \<and> (70::real) < 90"
  by (simp add: processVideo_def sample_download_def sample_processing_def sample_ai_def
      download_events_def processing_events_def processing_onProgress_def resize_150_def
      emitProgress_def)

text \<open>
  C1 (amended): the trace of a run starts with the events of the download
  step, followed, when the download succeeds, by those of the processing
  step. When every adapter report lies in [0, 100], every value given to
  \<^verbatim>\<open>job.progress\<close> and every percent broadcast in the download step lies in
  [10, 30], and every value given to \<^verbatim>\<open>job.progress\<close> in the processing step
  lies in [30, 70]; the values are the scaled reports \<open>10 + 0.2 p\<close> and
  \<open>30 + 0.4 p\<close>.
\<close>

theorem stage_progress_scaled:
  assumes dl: "\<forall>pr \<in> set (reports dl). 0 \<le> p_percent pr \<and> p_percent pr \<le> 100"
    and pc: "\<forall>pr \<in> set (reports (pc path)). 0 \<le> p_percent pr \<and> p_percent pr \<le> 100"
  shows "(\<exists>rest. snd (processVideo io dl pc ai) = download_events io (reports dl) @ rest)
       \<and> (outcome dl = Inr (metadata, path) \<longrightarrow>
            (\<exists>rest. snd (processVideo io dl pc ai)
               = download_events io (reports dl) @ processing_events io (reports (pc path)) @ rest))
       \<and> (\<forall>v \<in> set (job_progress (download_events io (reports dl))). 10 \<le> v \<and> v \<le> 30)
       \<and> (\<forall>v \<in> set (emitted_percent (download_events io (reports dl))). 10 \<le> v \<and> v \<le> 30)
       \<and> (\<forall>v \<in> set (job_progress (processing_events io (reports (pc path)))). 30 \<le> v \<and> v \<le> 70)
       \<and> job_progress (download_events io (reports dl))
           = 10 # map (\<lambda>pr. 10 + p_percent pr * 0.2) (reports dl)
       \<and> job_progress (processing_events io (reports (pc path)))
           = 30 # map (\<lambda>pr. 30 + p_percent pr * 0.4) (reports (pc path))"
proof -
  let ?drs = "reports dl" and ?prs = "reports (pc path)"
  have j1: "job_progress (download_events io drs) = 10 # map (\<lambda>pr. 10 + p_percent pr * 0.2) drs"
    for drs
    unfolding download_events_def
    by (induction drs)
       (simp_all add: job_progress_append job_progress_emitProgress download_onProgress_def Let_def)
  have j2: "job_progress (processing_events io prs) = 30 # map (\<lambda>pr. 30 + p_percent pr * 0.4) prs"
    for prs
    unfolding processing_events_def
    by (induction prs)
       (simp_all add: job_progress_append job_progress_emitProgress processing_onProgress_def Let_def)
  have e1: "set (emitted_percent (download_events io ?drs))
              \<subseteq> insert 10 ((\<lambda>pr. 10 + p_percent pr * 0.2) ` set ?drs)"
    using download_callbacks_emit [of io ?drs]
    by (auto simp: download_events_def emitted_percent_append emitProgress_def)
  have b1: "10 \<le> 10 + p_percent pr * 0.2 \<and> 10 + p_percent pr * 0.2 \<le> 30"
    if "pr \<in> set ?drs" for pr using dl that by auto
  have b2: "30 \<le> 30 + p_percent pr * 0.4 \<and> 30 + p_percent pr * 0.4 \<le> 70"
    if "pr \<in> set ?prs" for pr using pc that by auto
  have c1: "\<forall>v \<in> set (job_progress (download_events io ?drs)). 10 \<le> v \<and> v \<le> 30"
    using b1 by (auto simp: j1)
  have c2: "\<forall>v \<in> set (emitted_percent (download_events io ?drs)). 10 \<le> v \<and> v \<le> 30"
    using b1 e1 by fastforce
  have c3: "\<forall>v \<in> set (job_progress (processing_events io ?prs)). 30 \<le> v \<and> v \<le> 70"
    using b2 by (auto simp: j2)
  have t2: "\<exists>rest. snd (processVideo io dl pc ai)
               = download_events io ?drs @ processing_events io ?prs @ rest"
    if "outcome dl = Inr (metadata, path)"
    using processVideo_trace_processing [OF that] by blast
  show ?thesis
    using processVideo_trace [of io dl pc ai] t2 c1 c2 c3 j1 [of ?drs] j2 [of ?prs]
    by blast
qed

theorem stage_progress_scaled_witness:
  "outcome half_way_download = Inr (''metadata'', ''video.mp4'')
   \<and> job_progress (download_events True (reports half_way_download)) = [10, 20]
   \<and> emitted_percent (download_events True (reports half_way_download)) = [10, 20]
   \<and> job_progress (processing_events True (reports (all_split ''video.mp4''))) = [30, 70]
   \<and> job_progress (snd (processVideo True half_way_download all_split sample_ai))
       = [10, 20, 30, 70, 70, 100]"
proof -
  have h: "\<forall>pr \<in> set (reports half_way_download). 0 \<le> p_percent pr \<and> p_percent pr \<le> 100"
    "\<forall>pr \<in> set (reports (all_split ''video.mp4'')). 0 \<le> p_percent pr \<and> p_percent pr \<le> 100"
    by (simp_all add: half_way_download_def all_split_def)
  have ok: "outcome half_way_download = Inr (''metadata'', ''video.mp4'')"
    by (simp add: half_way_download_def)
  note th = stage_progress_scaled [where dl = half_way_download and pc = all_split
      and path = "''video.mp4''" and io = True and ai = sample_ai, OF h]
  have j1: "job_progress (download_events True (reports half_way_download)) = [10, 20]"
    and j2: "job_progress (processing_events True (reports (all_split ''video.mp4''))) = [30, 70]"
    using th by (simp_all add: half_way_download_def all_split_def)
  have e1: "emitted_percent (download_events True (reports half_way_download)) = [10, 20]"
    by (simp add: half_way_download_def download_events_def download_onProgress_def
        emitProgress_def)
  have run: "job_progress (snd (processVideo True half_way_download all_split sample_ai))
       = [10, 20, 30, 70, 70, 100]"
    by (simp add: processVideo_def half_way_download_def all_split_def sample_ai_def
        download_events_def download_onProgress_def processing_events_def
        processing_onProgress_def emitProgress_def)
  show ?thesis using ok j1 j2 e1 run by simp
qed

section \<open>Properties of the content generator\<close>

lemma generateTitleAndDescription_returns:
  "\<exists>c. generateTitleAndDescription model md ci = Inr c"
  by (simp add: generateTitleAndDescription_def split: option.split sum.split)

lemma generateBatch_returns:
  "\<exists>items. generateBatch model md cs = Inr items \<and> length items = length cs"
proof (induction cs)
  case Nil
  show ?case by simp
next
  case (Cons clip rest)
  obtain c where c: "generateTitleAndDescription model md clip = Inr c"
    using generateTitleAndDescription_returns by blast
  from Cons obtain items where "generateBatch model md rest = Inr items"
    and "length items = length rest" by blast
  with c show ?case by simp
qed

lemma usable_fallback: "usable (generateFallbackContent md ci)"
  by (simp add: usable_def generateFallbackContent_def)

text \<open>
  A response in which \<^verbatim>\<open>TITLE:\<close> occurs nowhere has no title, and one in which
  \<^verbatim>\<open>DESCRIPTION:\<close> occurs nowhere has no description.
\<close>

lemma match_title_no_marker:
  "(\<And>n. \<not> starts_with_ci ''TITLE:'' (drop n response)) \<Longrightarrow> match_title response = None"
proof (induction response)
  case Nil
  show ?case by simp
next
  case (Cons c cs)
  have here: "\<not> starts_with_ci ''TITLE:'' (c # cs)" using Cons.prems [of 0] by simp
  have "\<not> starts_with_ci ''TITLE:'' (drop n cs)" for n using Cons.prems [of "Suc n"] by simp
  then have "match_title cs = None" by (rule Cons.IH)
  with here show ?case by simp
qed

lemma match_description_no_marker:
  "(\<And>n. \<not> starts_with_ci ''DESCRIPTION:'' (drop n response)) \<Longrightarrow> match_description response = None"
proof (induction response)
  case Nil
  show ?case by simp
next
  case (Cons c cs)
  have here: "\<not> starts_with_ci ''DESCRIPTION:'' (c # cs)" using Cons.prems [of 0] by simp
  have "\<not> starts_with_ci ''DESCRIPTION:'' (drop n cs)" for n using Cons.prems [of "Suc n"] by simp
  then have "match_description cs = None" by (rule Cons.IH)
  with here show ?case by simp
qed

lemma parseResponse_no_markers:
  assumes "\<And>n. \<not> starts_with_ci ''TITLE:'' (drop n response)"
    and "\<And>n. \<not> starts_with_ci ''DESCRIPTION:'' (drop n response)"
  shows "parseResponse response = \<lparr>c_title = None, c_description = None\<rparr>"
  using match_title_no_marker [OF assms(1)] match_description_no_marker [OF assms(2)]
  by (simp add: parseResponse_def)

text \<open>
  C8 (as stated, refuted): when the model answers with a text that has no
  \<^verbatim>\<open>TITLE:\<close> and no \<^verbatim>\<open>DESCRIPTION:\<close> marker, the call succeeds, nothing is
  caught, and the operation returns \<^verbatim>\<open>null\<close> for both fields.
\<close>

theorem unparsed_response_gives_null:
  "generateTitleAndDescription (Some refusing_model) sample_metadata sample_clip
     = Inr \<lparr>c_title = None, c_description = None\<rparr>
   \<and> \<not> usable \<lparr>c_title = None, c_description = None\<rparr>"
  by (simp add: generateTitleAndDescription_def refusing_model_def parseResponse_def
      starts_with_ci_def upper_def usable_def)

text \<open>
  C8 (amended): the content generator never throws, for one clip or for a
  batch; when the model is unavailable or its call throws, the result is the
  deterministic fallback content, whose title and description are non-empty;
  when the call returns a text, the result is that text parsed.
\<close>

theorem content_generator_never_throws:
  "(\<exists>c. generateTitleAndDescription model md ci = Inr c)
   \<and> (\<exists>items. generateBatch model md cs = Inr items \<and> length items = length cs)
   \<and> (model = None \<longrightarrow>
        generateTitleAndDescription model md ci = Inr (generateFallbackContent md ci))
   \<and> (\<forall>g err. model = Some g \<and> g (buildPrompt md ci) = Inl err \<longrightarrow>
        generateTitleAndDescription model md ci = Inr (generateFallbackContent md ci))
   \<and> (\<forall>g text. model = Some g \<and> g (buildPrompt md ci) = Inr text \<longrightarrow>
        generateTitleAndDescription model md ci = Inr (parseResponse text))
   \<and> usable (generateFallbackContent md ci)"
  using generateTitleAndDescription_returns [of model md ci]
    generateBatch_returns [of model md cs] usable_fallback [of md ci]
  by (auto simp: generateTitleAndDescription_def)

theorem content_generator_never_throws_witness:
  "failing_model (buildPrompt sample_metadata sample_clip) = Inl ''quota exceeded''
   \<and> generateTitleAndDescription (Some failing_model) sample_metadata sample_clip
     = Inr \<lparr>c_title = Some ''My video - Part 1 #Shorts'',
            c_description = Some
              ''Check out this amazing clip from: My video\<newline>\<newline>#Shorts #YouTubeShorts #Viral #Trending''\<rparr>
   \<and> generateTitleAndDescription None sample_metadata sample_clip
     = Inr (generateFallbackContent sample_metadata sample_clip)"
  using content_generator_never_throws [of "Some failing_model" sample_metadata sample_clip "[]"]
  by (simp add: failing_model_def generateFallbackContent_def sample_metadata_def
      sample_clip_def dec_nat.simps digit_def generateTitleAndDescription_def)

section \<open>Properties of the scheduler\<close>

subsection \<open>Scheduling one upload\<close>

lemma scheduleUpload_past:
  "scheduledDate \<le> clock s \<Longrightarrow>
   scheduleUpload upload scheduledDate tz s = (Inl InvalidTime, s\<lparr>next_uuid := Suc (next_uuid s)\<rparr>)"
  by (simp add: scheduleUpload_def Let_def)

lemma scheduleUpload_future:
  assumes "clock s < t"
  shows "scheduleUpload upload t tz s =
     (Inr \<lparr>si_scheduleId = next_uuid s, si_scheduledTime = t, si_status = ''scheduled''\<rparr>,
      s\<lparr>next_uuid := Suc (next_uuid s),
        schedules := AList.update (next_uuid s) (new_schedule (next_uuid s) upload t tz (clock s))
                       (schedules s),
        disk := (if fs_ok s
                 then Json (AList.update (next_uuid s)
                        (new_schedule (next_uuid s) upload t tz (clock s)) (schedules s))
                 else disk s),
        timers := timers s @ [\<lparr>t_handle = next_handle s, t_sid = next_uuid s, t_at = t\<rparr>],
        next_handle := Suc (next_handle s),
        jobs := (jobs s)(next_uuid s \<mapsto> Some (next_handle s))\<rparr>)"
  using assms
  by (simp add: scheduleUpload_def Let_def saveSchedules_def scheduleJob_def new_schedule_def)

text \<open>
  C3: a call of \<^verbatim>\<open>scheduleUpload\<close> whose time is not strictly after the current
  time fails with \<open>InvalidTime\<close>; it creates no record, writes nothing to the
  file, arms no timer and stores no job.
\<close>

theorem scheduleUpload_rejects_past:
  assumes "scheduledDate \<le> clock s"
  shows "fst (scheduleUpload upload scheduledDate tz s) = Inl InvalidTime
       \<and> schedules (snd (scheduleUpload upload scheduledDate tz s)) = schedules s
       \<and> disk (snd (scheduleUpload upload scheduledDate tz s)) = disk s
       \<and> timers (snd (scheduleUpload upload scheduledDate tz s)) = timers s
       \<and> jobs (snd (scheduleUpload upload scheduledDate tz s)) = jobs s
       \<and> queue_log (snd (scheduleUpload upload scheduledDate tz s)) = queue_log s"
  using assms by (simp add: scheduleUpload_past)

theorem scheduleUpload_rejects_past_witness:
  "fst (scheduleUpload ''clip'' 0 ''UTC'' fresh) = Inl InvalidTime
   \<and> schedules (snd (scheduleUpload ''clip'' 0 ''UTC'' fresh)) = []
   \<and> timers (snd (scheduleUpload ''clip'' 0 ''UTC'' fresh)) = []
   \<and> disk (snd (scheduleUpload ''clip'' 0 ''UTC'' fresh)) = Missing"
  using scheduleUpload_rejects_past [of 0 fresh "''clip''" "''UTC''"]
  by (simp add: fresh_def)

subsection \<open>Bulk scheduling\<close>

lemma scheduleUpload_future_fields:
  assumes "clock s < t"
  shows "clock (snd (scheduleUpload upload t tz s)) = clock s"
    and "fs_ok (snd (scheduleUpload upload t tz s)) = fs_ok s"
    and "queue_log (snd (scheduleUpload upload t tz s)) = queue_log s"
    and "pending (snd (scheduleUpload upload t tz s)) = pending s"
    and "next_uuid (snd (scheduleUpload upload t tz s)) = Suc (next_uuid s)"
    and "next_handle (snd (scheduleUpload upload t tz s)) = Suc (next_handle s)"
    and "timers (snd (scheduleUpload upload t tz s)) =
           timers s @ [\<lparr>t_handle = next_handle s, t_sid = next_uuid s, t_at = t\<rparr>]"
    and "schedules (snd (scheduleUpload upload t tz s)) =
           AList.update (next_uuid s) (new_schedule (next_uuid s) upload t tz (clock s)) (schedules s)"
    and "jobs (snd (scheduleUpload upload t tz s)) = (jobs s)(next_uuid s \<mapsto> Some (next_handle s))"
    and "fs_ok s \<Longrightarrow> disk (snd (scheduleUpload upload t tz s))
           = Json (schedules (snd (scheduleUpload upload t tz s)))"
    and "\<not> fs_ok s \<Longrightarrow> disk (snd (scheduleUpload upload t tz s)) = disk s"
  using assms by (simp_all add: scheduleUpload_future)

lemma bulk_loop_round:
  assumes "bulk_time add_days p index = Inr t" and "clock s < t" and "valid_date t"
  shows "bulk_loop add_days p (upload # rest) index results s =
           bulk_loop add_days p rest (Suc index)
             (results @ [\<lparr>si_scheduleId = next_uuid s, si_scheduledTime = t,
                          si_status = ''scheduled''\<rparr>])
             (snd (scheduleUpload upload t (pattern_timezone p) s))"
  using assms by (simp add: scheduleUpload_future)

text \<open>
  When every round finds a time and that time is a valid date in the future,
  the loop schedules every upload: \<open>tm\<close> gives the time of each index.
\<close>

lemma bulk_loop_all_scheduled:
  assumes "\<forall>i<length us. bulk_time add_days p (index + i) = Inr (tm (index + i))
                          \<and> clock s < tm (index + i) \<and> valid_date (tm (index + i))"
  shows "fst (bulk_loop add_days p us index results s) =
           Inr (results @ map (\<lambda>i. \<lparr>si_scheduleId = next_uuid s + i,
                                     si_scheduledTime = tm (index + i),
                                     si_status = ''scheduled''\<rparr>) [0..<length us])
       \<and> clock (snd (bulk_loop add_days p us index results s)) = clock s
       \<and> fs_ok (snd (bulk_loop add_days p us index results s)) = fs_ok s
       \<and> queue_log (snd (bulk_loop add_days p us index results s)) = queue_log s
       \<and> pending (snd (bulk_loop add_days p us index results s)) = pending s
       \<and> next_uuid (snd (bulk_loop add_days p us index results s)) = next_uuid s + length us
       \<and> timers (snd (bulk_loop add_days p us index results s)) =
           timers s @ map (\<lambda>i. \<lparr>t_handle = next_handle s + i, t_sid = next_uuid s + i,
                                  t_at = tm (index + i)\<rparr>) [0..<length us]"
  using assms
proof (induction us arbitrary: index results s)
  case Nil
  show ?case by simp
next
  case (Cons u us)
  let ?t = "tm index"
  let ?s1 = "snd (scheduleUpload u ?t (pattern_timezone p) s)"
  from Cons.prems have t: "bulk_time add_days p index = Inr ?t" "clock s < ?t" "valid_date ?t"
    by force+
  have rest: "\<forall>i<length us. bulk_time add_days p (Suc index + i) = Inr (tm (Suc index + i))
                            \<and> clock ?s1 < tm (Suc index + i) \<and> valid_date (tm (Suc index + i))"
  proof (intro allI impI)
    fix i assume "i < length us"
    then have "Suc i < length (u # us)" by simp
    with Cons.prems have "bulk_time add_days p (index + Suc i) = Inr (tm (index + Suc i))
                        \<and> clock s < tm (index + Suc i) \<and> valid_date (tm (index + Suc i))"
      by blast
    then show "bulk_time add_days p (Suc index + i) = Inr (tm (Suc index + i))
             \<and> clock ?s1 < tm (Suc index + i) \<and> valid_date (tm (Suc index + i))"
      using t by (simp add: scheduleUpload_future_fields)
  qed
  note ih = Cons.IH [OF rest]
  show ?case
    unfolding bulk_loop_round [OF t]
    using ih t
    by (simp add: scheduleUpload_future_fields map_upt_Suc del: upt_Suc)
qed

lemma bulk_loop_store:
  assumes "\<forall>i<length us. bulk_time add_days p (index + i) = Inr (tm (index + i))
                          \<and> clock s < tm (index + i) \<and> valid_date (tm (index + i))"
  shows "(\<forall>i<length us. map_of (schedules (snd (bulk_loop add_days p us index results s)))
                           (next_uuid s + i)
            = Some (new_schedule (next_uuid s + i) (us ! i) (tm (index + i))
                      (pattern_timezone p) (clock s)))
       \<and> (\<forall>j<next_uuid s. map_of (schedules (snd (bulk_loop add_days p us index results s))) j
            = map_of (schedules s) j)
       \<and> (\<forall>i<length us. jobs (snd (bulk_loop add_days p us index results s)) (next_uuid s + i)
            = Some (Some (next_handle s + i)))
       \<and> (\<forall>j<next_uuid s. jobs (snd (bulk_loop add_days p us index results s)) j = jobs s j)
       \<and> (fs_ok s \<and> us \<noteq> [] \<longrightarrow>
            disk (snd (bulk_loop add_days p us index results s))
              = Json (schedules (snd (bulk_loop add_days p us index results s))))
       \<and> (\<not> fs_ok s \<longrightarrow> disk (snd (bulk_loop add_days p us index results s)) = disk s)
       \<and> ((\<forall>k \<in> set (map fst (schedules s)). k < next_uuid s) \<longrightarrow>
            map fst (schedules (snd (bulk_loop add_days p us index results s)))
              = map fst (schedules s) @ map (\<lambda>i. next_uuid s + i) [0..<length us])"
  using assms
proof (induction us arbitrary: index results s)
  case Nil
  show ?case by simp
next
  case (Cons u us)
  let ?t = "tm index"
  let ?s1 = "snd (scheduleUpload u ?t (pattern_timezone p) s)"
  let ?s' = "snd (bulk_loop add_days p us (Suc index)
                (results @ [\<lparr>si_scheduleId = next_uuid s, si_scheduledTime = ?t,
                             si_status = ''scheduled''\<rparr>]) ?s1)"
  from Cons.prems have t: "bulk_time add_days p index = Inr ?t" "clock s < ?t" "valid_date ?t"
    by force+
  note f = scheduleUpload_future_fields [OF t(2), of u "pattern_timezone p"]
  have rest: "\<forall>i<length us. bulk_time add_days p (Suc index + i) = Inr (tm (Suc index + i))
                            \<and> clock ?s1 < tm (Suc index + i) \<and> valid_date (tm (Suc index + i))"
  proof (intro allI impI)
    fix i assume "i < length us"
    then have "Suc i < length (u # us)" by simp
    with Cons.prems have "bulk_time add_days p (index + Suc i) = Inr (tm (index + Suc i))
                        \<and> clock s < tm (index + Suc i) \<and> valid_date (tm (index + Suc i))"
      by blast
    then show "bulk_time add_days p (Suc index + i) = Inr (tm (Suc index + i))
             \<and> clock ?s1 < tm (Suc index + i) \<and> valid_date (tm (Suc index + i))"
      by (simp add: f)
  qed
  note ih = Cons.IH [OF rest, of "results @ [\<lparr>si_scheduleId = next_uuid s, si_scheduledTime = ?t,
                             si_status = ''scheduled''\<rparr>]"]
  have eq: "bulk_loop add_days p (u # us) index results s =
            bulk_loop add_days p us (Suc index)
                (results @ [\<lparr>si_scheduleId = next_uuid s, si_scheduledTime = ?t,
                             si_status = ''scheduled''\<rparr>]) ?s1"
    by (rule bulk_loop_round [OF t])
  have old: "map_of (schedules ?s') j = map_of (schedules ?s1) j" if "j < Suc (next_uuid s)" for j
    using ih that by (simp add: f)
  have c1: "map_of (schedules ?s') (next_uuid s + i)
            = Some (new_schedule (next_uuid s + i) ((u # us) ! i) (tm (index + i))
                      (pattern_timezone p) (clock s))" if "i < length (u # us)" for i
  proof (cases i)
    case 0
    then show ?thesis using old [of "next_uuid s"] by (simp add: f update_conv)
  next
    case (Suc k)
    then have "k < length us" using that by simp
    with ih have "map_of (schedules ?s') (next_uuid ?s1 + k)
            = Some (new_schedule (next_uuid ?s1 + k) (us ! k) (tm (Suc index + k))
                      (pattern_timezone p) (clock ?s1))" by blast
    then show ?thesis using Suc by (simp add: f)
  qed
  have c2: "map_of (schedules ?s') j = map_of (schedules s) j" if "j < next_uuid s" for j
    using old [of j] that by (simp add: f update_conv)
  have oldj: "jobs ?s' j = jobs ?s1 j" if "j < Suc (next_uuid s)" for j
    using ih that by (simp add: f)
  have c2j: "jobs ?s' j = jobs s j" if "j < next_uuid s" for j
    using oldj [of j] that by (simp add: f)
  have c3: "jobs ?s' (next_uuid s + i) = Some (Some (next_handle s + i))"
    if "i < length (u # us)" for i
  proof (cases i)
    case 0
    then show ?thesis using oldj [of "next_uuid s"] by (simp add: f)
  next
    case (Suc k)
    then have "k < length us" using that by simp
    with ih have "jobs ?s' (next_uuid ?s1 + k) = Some (Some (next_handle ?s1 + k))" by blast
    then show ?thesis using Suc by (simp add: f)
  qed
  have c4: "disk ?s' = Json (schedules ?s')" if "fs_ok s"
  proof (cases us)
    case Nil
    then show ?thesis using that by (simp add: f)
  next
    case (Cons a list)
    then show ?thesis using ih that by (simp add: f)
  qed
  have c4n: "disk ?s' = disk s" if "\<not> fs_ok s"
  proof -
    have "disk ?s' = disk ?s1" using ih that by (simp add: f(2))
    then show ?thesis using f(11) [OF that] by simp
  qed
  have c5: "map fst (schedules ?s')
              = map fst (schedules s) @ map (\<lambda>i. next_uuid s + i) [0..<length (u # us)]"
    if fr: "\<forall>k \<in> set (map fst (schedules s)). k < next_uuid s"
  proof -
    have notin: "next_uuid s \<notin> set (map fst (schedules s))" using fr by auto
    have keys1: "map fst (schedules ?s1) = map fst (schedules s) @ [next_uuid s]"
      using notin by (simp add: f update_keys)
    have "\<forall>k \<in> set (map fst (schedules ?s1)). k < next_uuid ?s1"
      unfolding keys1 f(5) using fr by auto
    with ih have "map fst (schedules ?s')
              = map fst (schedules ?s1) @ map (\<lambda>i. next_uuid ?s1 + i) [0..<length us]" by blast
    then show ?thesis unfolding keys1 f(5) by (simp add: map_upt_Suc del: upt_Suc)
  qed
  show ?case unfolding eq using c1 c2 c2j c3 c4 c4n c5 by blast
qed

lemma bulk_loop_append:
  "bulk_loop add_days p (us1 @ us2) index results s =
     (case bulk_loop add_days p us1 index results s of
        (Inl e, s') \<Rightarrow> (Inl e, s')
      | (Inr rs, s') \<Rightarrow> bulk_loop add_days p us2 (index + length us1) rs s')"
  by (induction us1 arbitrary: index results s) (auto split: sum.splits prod.splits)

lemma scheduleUpload_error:
  "fst (scheduleUpload upload t tz s) = Inl e \<Longrightarrow> e = InvalidTime"
  by (cases "t \<le> clock s") (simp_all add: scheduleUpload_past scheduleUpload_future)

lemma bulk_time_custom:
  assumes "p_type p = ''custom''" and "p_times p = Some ts"
  shows "bulk_time add_days p index =
           (if index < length ts then
              (case ts ! index of None \<Rightarrow> Inl InsufficientTimes | Some t \<Rightarrow> Inr t)
            else Inl InsufficientTimes)"
  using assms by (simp add: bulk_time_def)

lemma bulk_loop_custom_fails:
  assumes "p_type p = ''custom''" and "p_times p = Some ts"
    and "index \<le> length ts" and "length ts < index + length us"
  shows "fst (bulk_loop add_days p us index results s) = Inl InsufficientTimes
       \<or> fst (bulk_loop add_days p us index results s) = Inl InvalidTime
       \<or> fst (bulk_loop add_days p us index results s) = Inl RangeError"
  using assms(3,4)
proof (induction us arbitrary: index results s)
  case Nil
  then show ?case by simp
next
  case (Cons u us)
  note bt = bulk_time_custom [OF assms(1,2), of add_days index]
  show ?case
  proof (cases "index < length ts")
    case False
    then show ?thesis using bt by simp
  next
    case True
    show ?thesis
    proof (cases "ts ! index")
      case None
      then show ?thesis using True bt by simp
    next
      case (Some t)
      show ?thesis
      proof (cases "valid_date t")
        case False
        then show ?thesis using True bt Some by simp
      next
        case valid: True
        obtain r s' where su: "scheduleUpload u t (pattern_timezone p) s = (r, s')"
          by (cases "scheduleUpload u t (pattern_timezone p) s")
        show ?thesis
        proof (cases r)
          case (Inl e)
          then have "e = InvalidTime"
            using su scheduleUpload_error [of u t "pattern_timezone p" s e] by simp
          then show ?thesis using True bt Some valid su Inl by simp
        next
          case (Inr info)
          have "fst (bulk_loop add_days p us (Suc index) (results @ [info]) s') = Inl InsufficientTimes
              \<or> fst (bulk_loop add_days p us (Suc index) (results @ [info]) s') = Inl InvalidTime
              \<or> fst (bulk_loop add_days p us (Suc index) (results @ [info]) s') = Inl RangeError"
            using Cons.IH [of "Suc index"] True Cons.prems by simp
          then show ?thesis using True bt Some valid su Inr by simp
        qed
      qed
    qed
  qed
qed

text \<open>
  C2 (as stated, refuted): with the custom pattern, one time and two uploads
  the call fails with \<open>InsufficientTimes\<close> after the first upload has been
  scheduled: its record is in the store and in the file, and its timer is
  armed.
\<close>

theorem scheduleBulk_custom_partial:
  "p_type custom_one_time = ''custom'' \<and> p_times custom_one_time = Some [Some 1000]
   \<and> fst (scheduleBulk utc_add_days [''clip1'', ''clip2''] custom_one_time fresh)
     = Inl InsufficientTimes
   \<and> schedules (snd (scheduleBulk utc_add_days [''clip1'', ''clip2''] custom_one_time fresh))
     = [(0, \<lparr>s_id = 0, uploadData = ''clip1'', scheduledTime = 1000, timezone = ''UTC'',
              status = Scheduled, createdAt = 0, result = None, completedAt = None,
              error = None, failedAt = None, cancelledAt = None\<rparr>)]
   \<and> disk (snd (scheduleBulk utc_add_days [''clip1'', ''clip2''] custom_one_time fresh))
     = Json [(0, \<lparr>s_id = 0, uploadData = ''clip1'', scheduledTime = 1000, timezone = ''UTC'',
              status = Scheduled, createdAt = 0, result = None, completedAt = None,
              error = None, failedAt = None, cancelledAt = None\<rparr>)]
   \<and> timers (snd (scheduleBulk utc_add_days [''clip1'', ''clip2''] custom_one_time fresh))
     = [\<lparr>t_handle = 0, t_sid = 0, t_at = 1000\<rparr>]
   \<and> schedules fresh = [] \<and> disk fresh = Missing \<and> timers fresh = []"
  by (simp add: scheduleBulk_def bulk_time_def custom_one_time_def fresh_def
      scheduleUpload_future pattern_timezone_def valid_date_def date_limit_def new_schedule_def)

text \<open>
  C2 (amended): with the custom pattern and fewer times than uploads the call
  always fails, with \<open>InsufficientTimes\<close>, \<open>InvalidTime\<close> or \<open>RangeError\<close>. When
  every given time is a time string for a valid date in the future, it fails
  with \<open>InsufficientTimes\<close> and leaves behind, for each given time, one record
  with status scheduled for that upload and time, with its timer armed; the
  file holds the store with these records when it is writable and is as
  before when it is not; none of this is undone, so the store has changed
  unless no time was given. When no time was given the state is unchanged.
\<close>

theorem scheduleBulk_custom_short:
  assumes "p_type p = ''custom''" and "p_times p = Some ts" and "length ts < length uploads"
  shows "(fst (scheduleBulk add_days uploads p s) = Inl InsufficientTimes
          \<or> fst (scheduleBulk add_days uploads p s) = Inl InvalidTime
          \<or> fst (scheduleBulk add_days uploads p s) = Inl RangeError)
       \<and> ((\<forall>i<length ts. \<exists>t. ts ! i = Some t \<and> clock s < t \<and> valid_date t) \<longrightarrow>
            fst (scheduleBulk add_days uploads p s) = Inl InsufficientTimes
          \<and> (\<forall>i<length ts.
                map_of (schedules (snd (scheduleBulk add_days uploads p s))) (next_uuid s + i)
                  = Some \<lparr>s_id = next_uuid s + i, uploadData = uploads ! i,
                          scheduledTime = the (ts ! i), timezone = pattern_timezone p,
                          status = Scheduled, createdAt = clock s, result = None,
                          completedAt = None, error = None, failedAt = None,
                          cancelledAt = None\<rparr>)
          \<and> timers (snd (scheduleBulk add_days uploads p s))
               = timers s @ map (\<lambda>i. \<lparr>t_handle = next_handle s + i, t_sid = next_uuid s + i,
                                         t_at = the (ts ! i)\<rparr>) [0..<length ts]
          \<and> (fs_ok s \<and> ts \<noteq> [] \<longrightarrow>
               disk (snd (scheduleBulk add_days uploads p s))
                 = Json (schedules (snd (scheduleBulk add_days uploads p s))))
          \<and> (\<not> fs_ok s \<longrightarrow> disk (snd (scheduleBulk add_days uploads p s)) = disk s)
          \<and> ((\<forall>k \<in> set (map fst (schedules s)). k < next_uuid s) \<longrightarrow>
               map fst (schedules (snd (scheduleBulk add_days uploads p s)))
                 = map fst (schedules s) @ map (\<lambda>i. next_uuid s + i) [0..<length ts]
             \<and> (ts \<noteq> [] \<longrightarrow> schedules (snd (scheduleBulk add_days uploads p s)) \<noteq> schedules s)))
       \<and> (ts = [] \<longrightarrow> snd (scheduleBulk add_days uploads p s) = s)"
proof -
  let ?n = "length ts"
  let ?us1 = "take ?n uploads"
  let ?tm = "\<lambda>i. the (ts ! i)"
  let ?s' = "snd (scheduleBulk add_days uploads p s)"
  note bt = bulk_time_custom [OF assms(1,2), of add_days]
  have part1: "fst (scheduleBulk add_days uploads p s) = Inl InsufficientTimes
          \<or> fst (scheduleBulk add_days uploads p s) = Inl InvalidTime
          \<or> fst (scheduleBulk add_days uploads p s) = Inl RangeError"
    unfolding scheduleBulk_def
    using bulk_loop_custom_fails [OF assms(1,2), of 0 uploads add_days "[]" s] assms(3) by simp
  obtain u rest where dr: "drop ?n uploads = u # rest"
    using assms(3) by (cases "drop ?n uploads") auto
  have split: "uploads = ?us1 @ u # rest"
    using dr by (metis append_take_drop_id)
  have len1: "length ?us1 = ?n" using assms(3) by simp
  have part2: "fst (scheduleBulk add_days uploads p s) = Inl InsufficientTimes
          \<and> (\<forall>i<length ts.
                map_of (schedules ?s') (next_uuid s + i)
                  = Some \<lparr>s_id = next_uuid s + i, uploadData = uploads ! i,
                          scheduledTime = the (ts ! i), timezone = pattern_timezone p,
                          status = Scheduled, createdAt = clock s, result = None,
                          completedAt = None, error = None, failedAt = None,
                          cancelledAt = None\<rparr>)
          \<and> timers ?s'
               = timers s @ map (\<lambda>i. \<lparr>t_handle = next_handle s + i, t_sid = next_uuid s + i,
                                         t_at = the (ts ! i)\<rparr>) [0..<length ts]
          \<and> (fs_ok s \<and> ts \<noteq> [] \<longrightarrow> disk ?s' = Json (schedules ?s'))
          \<and> (\<not> fs_ok s \<longrightarrow> disk ?s' = disk s)
          \<and> ((\<forall>k \<in> set (map fst (schedules s)). k < next_uuid s) \<longrightarrow>
               map fst (schedules ?s')
                 = map fst (schedules s) @ map (\<lambda>i. next_uuid s + i) [0..<length ts]
             \<and> (ts \<noteq> [] \<longrightarrow> schedules ?s' \<noteq> schedules s))"
    if fut: "\<forall>i<length ts. \<exists>t. ts ! i = Some t \<and> clock s < t \<and> valid_date t"
  proof -
    have ok: "\<forall>i<length ?us1. bulk_time add_days p (0 + i) = Inr (?tm (0 + i))
                             \<and> clock s < ?tm (0 + i) \<and> valid_date (?tm (0 + i))"
    proof (intro allI impI)
      fix i assume "i < length ?us1"
      then have i: "i < ?n" using len1 by simp
      with fut obtain t where "ts ! i = Some t" "clock s < t" "valid_date t" by blast
      then show "bulk_time add_days p (0 + i) = Inr (?tm (0 + i))
               \<and> clock s < ?tm (0 + i) \<and> valid_date (?tm (0 + i))"
        using i by (simp add: bt)
    qed
    obtain r1 s1 where l1: "bulk_loop add_days p ?us1 0 [] s = (r1, s1)"
      by (cases "bulk_loop add_days p ?us1 0 [] s")
    have r1: "r1 = Inr (map (\<lambda>i. \<lparr>si_scheduleId = next_uuid s + i,
                                     si_scheduledTime = ?tm i,
                                     si_status = ''scheduled''\<rparr>) [0..<?n])"
      using bulk_loop_all_scheduled [OF ok, of "[]", unfolded len1] l1 by simp
    have "bulk_loop add_days p (?us1 @ u # rest) 0 [] s = (Inl InsufficientTimes, s1)"
      using assms(3) by (simp add: bulk_loop_append l1 r1 bt min_def)
    then have whole: "bulk_loop add_days p uploads 0 [] s = (Inl InsufficientTimes, s1)"
      using split by simp
    have st: "?s' = snd (bulk_loop add_days p ?us1 0 [] s)"
      by (simp add: scheduleBulk_def whole l1)
    note sched = bulk_loop_all_scheduled [OF ok, of "[]", unfolded len1, folded st]
    note store = bulk_loop_store [OF ok, of "[]", unfolded len1, folded st]
    have fst_whole: "fst (scheduleBulk add_days uploads p s) = Inl InsufficientTimes"
      by (simp add: scheduleBulk_def whole)
    have recs: "map_of (schedules ?s') (next_uuid s + i)
                  = Some \<lparr>s_id = next_uuid s + i, uploadData = uploads ! i,
                          scheduledTime = the (ts ! i), timezone = pattern_timezone p,
                          status = Scheduled, createdAt = clock s, result = None,
                          completedAt = None, error = None, failedAt = None,
                          cancelledAt = None\<rparr>" if "i < ?n" for i
      using store that by (simp add: new_schedule_def)
    have tms: "timers ?s'
               = timers s @ map (\<lambda>i. \<lparr>t_handle = next_handle s + i, t_sid = next_uuid s + i,
                                         t_at = the (ts ! i)\<rparr>) [0..<length ts]"
      using sched by simp
    have dk: "disk ?s' = Json (schedules ?s')" if "fs_ok s" and "ts \<noteq> []"
    proof -
      have "?us1 \<noteq> []" using that(2) len1 by auto
      then show ?thesis using store that(1) by blast
    qed
    have dkn: "disk ?s' = disk s" if "\<not> fs_ok s" using store that by blast
    have keys: "map fst (schedules ?s')
                 = map fst (schedules s) @ map (\<lambda>i. next_uuid s + i) [0..<length ts]"
      if "\<forall>k \<in> set (map fst (schedules s)). k < next_uuid s"
      using store that by blast
    have changed: "schedules ?s' \<noteq> schedules s"
      if fr: "\<forall>k \<in> set (map fst (schedules s)). k < next_uuid s" and ne: "ts \<noteq> []"
    proof
      assume same: "schedules ?s' = schedules s"
      have "length (map fst (schedules ?s')) = length (map fst (schedules s)) + length ts"
        unfolding keys [OF fr] by simp
      then show False using same ne by simp
    qed
    show ?thesis using fst_whole recs tms dk dkn keys changed by blast
  qed
  have part3: "snd (scheduleBulk add_days uploads p s) = s" if "ts = []"
  proof -
    from assms(3) that obtain u' rest' where "uploads = u' # rest'" by (cases uploads) auto
    then show ?thesis using bt that by (simp add: scheduleBulk_def)
  qed
  show ?thesis using part1 part2 part3 by blast
qed

theorem scheduleBulk_custom_short_witness:
  "p_type custom_one_time = ''custom'' \<and> p_times custom_one_time = Some [Some 1000]
   \<and> fst (scheduleBulk utc_add_days [''clip1'', ''clip2''] custom_one_time fresh)
       = Inl InsufficientTimes
   \<and> map fst (schedules (snd (scheduleBulk utc_add_days [''clip1'', ''clip2'']
                                custom_one_time fresh))) = [0]
   \<and> map_option (\<lambda>d. (uploadData d, scheduledTime d, status d))
       (map_of (schedules (snd (scheduleBulk utc_add_days [''clip1'', ''clip2'']
                                  custom_one_time fresh))) 0)
       = Some (''clip1'', 1000, Scheduled)
   \<and> disk (snd (scheduleBulk utc_add_days [''clip1'', ''clip2''] custom_one_time fresh))
       = Json (schedules (snd (scheduleBulk utc_add_days [''clip1'', ''clip2'']
                                 custom_one_time fresh)))"
proof -
  have h: "p_type custom_one_time = ''custom''" "p_times custom_one_time = Some [Some 1000]"
    "length [Some (1000 :: int)] < length [''clip1'', ''clip2'']"
    by (simp_all add: custom_one_time_def)
  have fut: "\<forall>i<length [Some (1000 :: int)].
               \<exists>t. [Some 1000] ! i = Some t \<and> clock fresh < t \<and> valid_date t"
    by (simp add: fresh_def valid_date_def date_limit_def)
  note th = scheduleBulk_custom_short [OF h, of utc_add_days fresh]
  from th fut have a: "fst (scheduleBulk utc_add_days [''clip1'', ''clip2''] custom_one_time fresh)
       = Inl InsufficientTimes"
    by blast
  from th fut have "\<forall>i<length [Some (1000 :: int)].
       map_of (schedules (snd (scheduleBulk utc_add_days [''clip1'', ''clip2''] custom_one_time fresh)))
         (next_uuid fresh + i)
       = Some \<lparr>s_id = next_uuid fresh + i, uploadData = [''clip1'', ''clip2''] ! i,
               scheduledTime = the ([Some 1000] ! i), timezone = pattern_timezone custom_one_time,
               status = Scheduled, createdAt = clock fresh, result = None,
               completedAt = None, error = None, failedAt = None, cancelledAt = None\<rparr>"
    by blast
  then have b: "map_option (\<lambda>d. (uploadData d, scheduledTime d, status d))
       (map_of (schedules (snd (scheduleBulk utc_add_days [''clip1'', ''clip2'']
                                  custom_one_time fresh))) 0)
       = Some (''clip1'', 1000, Scheduled)"
    by (simp add: fresh_def)
  have fr: "\<forall>k \<in> set (map fst (schedules fresh)). k < next_uuid fresh"
    by (simp add: fresh_def)
  from th fut fr have "map fst (schedules (snd (scheduleBulk utc_add_days [''clip1'', ''clip2'']
                                custom_one_time fresh)))
       = map fst (schedules fresh) @ map (\<lambda>i. next_uuid fresh + i) [0..<length [Some (1000 :: int)]]"
    by blast
  then have c: "map fst (schedules (snd (scheduleBulk utc_add_days [''clip1'', ''clip2'']
                                custom_one_time fresh))) = [0]"
    by (simp add: fresh_def)
  have "fs_ok fresh \<and> [Some (1000 :: int)] \<noteq> []" by (simp add: fresh_def)
  with th fut have d: "disk (snd (scheduleBulk utc_add_days [''clip1'', ''clip2''] custom_one_time fresh))
       = Json (schedules (snd (scheduleBulk utc_add_days [''clip1'', ''clip2'']
                                 custom_one_time fresh)))"
    by blast
  show ?thesis using h(1,2) a b c d by blast
qed

lemma bulk_time_interval:
  assumes "p_type p = ''interval''"
  shows "bulk_time add_days p index =
           Inr (p_startTime p + index_times_interval index (p_interval p) * hour_ms)"
  using assms by (simp add: bulk_time_def)

text \<open>
  C7 (as stated, refuted): with the interval pattern, an interval of 2 hours
  and three uploads, a start time that is the current time makes the call
  fail with \<open>InvalidTime\<close>: no record is created and no timer is armed.
\<close>

theorem scheduleBulk_interval_not_future:
  "p_type every_two_hours = ''interval'' \<and> p_interval every_two_hours = Some 2
   \<and> p_startTime every_two_hours = clock at_start_time
   \<and> fst (scheduleBulk utc_add_days [''clip1'', ''clip2'', ''clip3''] every_two_hours at_start_time)
       = Inl InvalidTime
   \<and> schedules (snd (scheduleBulk utc_add_days [''clip1'', ''clip2'', ''clip3'']
                        every_two_hours at_start_time)) = []
   \<and> timers (snd (scheduleBulk utc_add_days [''clip1'', ''clip2'', ''clip3'']
                     every_two_hours at_start_time)) = []"
  by (simp add: scheduleBulk_def bulk_time_def every_two_hours_def at_start_time_def fresh_def
      index_times_interval_def scheduleUpload_past valid_date_def date_limit_def)

text \<open>
  C7 (amended): with the interval pattern, start time \<open>T\<close> and an interval of
  \<open>k\<close> hours, when every time \<open>T + i * k\<close> hours is a valid date after the
  current time, the call returns one entry per upload, in order, with these
  times and status \<^verbatim>\<open>'scheduled'\<close>; each entry has its own new identifier, under
  which the store holds a record with status scheduled for that upload and
  that time, with a timer armed at that time; the file holds the store when
  it is writable; no other record is added. (For \<open>k = 2\<close> and three uploads:
  \<open>T\<close>, \<open>T + 2h\<close>, \<open>T + 4h\<close>.)
\<close>

theorem scheduleBulk_interval:
  assumes "p_type p = ''interval''" and "p_interval p = Some k"
    and "\<forall>i<length uploads. clock s < p_startTime p + int i * k * hour_ms
                               \<and> valid_date (p_startTime p + int i * k * hour_ms)"
  shows "fst (scheduleBulk add_days uploads p s) =
           Inr (map (\<lambda>i. \<lparr>si_scheduleId = next_uuid s + i,
                            si_scheduledTime = p_startTime p + int i * k * hour_ms,
                            si_status = ''scheduled''\<rparr>) [0..<length uploads])
       \<and> distinct (map (\<lambda>i. next_uuid s + i) [0..<length uploads])
       \<and> (\<forall>i<length uploads.
             map_of (schedules (snd (scheduleBulk add_days uploads p s))) (next_uuid s + i)
               = Some \<lparr>s_id = next_uuid s + i, uploadData = uploads ! i,
                       scheduledTime = p_startTime p + int i * k * hour_ms,
                       timezone = pattern_timezone p, status = Scheduled,
                       createdAt = clock s, result = None, completedAt = None,
                       error = None, failedAt = None, cancelledAt = None\<rparr>)
       \<and> timers (snd (scheduleBulk add_days uploads p s))
            = timers s @ map (\<lambda>i. \<lparr>t_handle = next_handle s + i, t_sid = next_uuid s + i,
                                      t_at = p_startTime p + int i * k * hour_ms\<rparr>)
                           [0..<length uploads]
       \<and> (fs_ok s \<and> uploads \<noteq> [] \<longrightarrow>
            disk (snd (scheduleBulk add_days uploads p s))
              = Json (schedules (snd (scheduleBulk add_days uploads p s))))
       \<and> ((\<forall>j \<in> set (map fst (schedules s)). j < next_uuid s) \<longrightarrow>
            map fst (schedules (snd (scheduleBulk add_days uploads p s)))
              = map fst (schedules s) @ map (\<lambda>i. next_uuid s + i) [0..<length uploads])"
proof -
  let ?tm = "\<lambda>i. p_startTime p + int i * k * hour_ms"
  have ok: "\<forall>i<length uploads. bulk_time add_days p (0 + i) = Inr (?tm (0 + i))
                              \<and> clock s < ?tm (0 + i) \<and> valid_date (?tm (0 + i))"
    using assms by (simp add: bulk_time_interval index_times_interval_def)
  have d: "distinct (map (\<lambda>i. next_uuid s + i) [0..<length uploads])"
    by (simp add: distinct_map inj_on_def)
  show ?thesis
    unfolding scheduleBulk_def
    using bulk_loop_all_scheduled [OF ok, of "[]"] bulk_loop_store [OF ok, of "[]"] d
    by (simp add: new_schedule_def)
qed

theorem scheduleBulk_interval_witness:
  "p_type every_two_hours = ''interval'' \<and> p_interval every_two_hours = Some 2
   \<and> p_startTime every_two_hours = 1000 \<and> clock fresh = 0
   \<and> fst (scheduleBulk utc_add_days [''clip1'', ''clip2'', ''clip3''] every_two_hours fresh)
     = Inr [\<lparr>si_scheduleId = 0, si_scheduledTime = 1000, si_status = ''scheduled''\<rparr>,
            \<lparr>si_scheduleId = 1, si_scheduledTime = 1000 + 2 * 3600000, si_status = ''scheduled''\<rparr>,
            \<lparr>si_scheduleId = 2, si_scheduledTime = 1000 + 4 * 3600000, si_status = ''scheduled''\<rparr>]
   \<and> map (\<lambda>e. (fst e, uploadData (snd e), scheduledTime (snd e), status (snd e)))
       (schedules (snd (scheduleBulk utc_add_days [''clip1'', ''clip2'', ''clip3'']
                          every_two_hours fresh)))
     = [(0, ''clip1'', 1000, Scheduled), (1, ''clip2'', 1000 + 2 * 3600000, Scheduled),
        (2, ''clip3'', 1000 + 4 * 3600000, Scheduled)]
   \<and> map t_at (timers (snd (scheduleBulk utc_add_days [''clip1'', ''clip2'', ''clip3'']
                               every_two_hours fresh)))
     = [1000, 1000 + 2 * 3600000, 1000 + 4 * 3600000]"
proof -
  have h: "p_type every_two_hours = ''interval''" "p_interval every_two_hours = Some 2"
    "\<forall>i<length [''clip1'', ''clip2'', ''clip3''].
        clock fresh < p_startTime every_two_hours + int i * 2 * hour_ms
        \<and> valid_date (p_startTime every_two_hours + int i * 2 * hour_ms)"
    by (simp_all add: every_two_hours_def fresh_def hour_ms_def valid_date_def date_limit_def
        less_Suc_eq)
  note th = scheduleBulk_interval [OF h, of utc_add_days]
  have r: "fst (scheduleBulk utc_add_days [''clip1'', ''clip2'', ''clip3''] every_two_hours fresh)
     = Inr [\<lparr>si_scheduleId = 0, si_scheduledTime = 1000, si_status = ''scheduled''\<rparr>,
            \<lparr>si_scheduleId = 1, si_scheduledTime = 1000 + 2 * 3600000, si_status = ''scheduled''\<rparr>,
            \<lparr>si_scheduleId = 2, si_scheduledTime = 1000 + 4 * 3600000, si_status = ''scheduled''\<rparr>]"
    using th by (simp add: every_two_hours_def fresh_def hour_ms_def upt_rec)
  have st: "map (\<lambda>e. (fst e, uploadData (snd e), scheduledTime (snd e), status (snd e)))
       (schedules (snd (scheduleBulk utc_add_days [''clip1'', ''clip2'', ''clip3'']
                          every_two_hours fresh)))
     = [(0, ''clip1'', 1000, Scheduled), (1, ''clip2'', 1000 + 2 * 3600000, Scheduled),
        (2, ''clip3'', 1000 + 4 * 3600000, Scheduled)]"
    by (simp add: scheduleBulk_def bulk_time_def every_two_hours_def fresh_def
        index_times_interval_def hour_ms_def scheduleUpload_future valid_date_def
        date_limit_def pattern_timezone_def new_schedule_def)
  have tm: "map t_at (timers (snd (scheduleBulk utc_add_days [''clip1'', ''clip2'', ''clip3'']
                               every_two_hours fresh)))
     = [1000, 1000 + 2 * 3600000, 1000 + 4 * 3600000]"
    using th by (simp add: every_two_hours_def fresh_def hour_ms_def upt_rec)
  show ?thesis
    using h(1,2) r st tm by (simp add: every_two_hours_def fresh_def)
qed

text \<open>
  C10 (as stated, refuted): with the interval pattern, no interval and a start
  time that is the current time, an error is raised: the call fails with
  \<open>InvalidTime\<close> and schedules nothing.
\<close>

theorem scheduleBulk_interval_absent_not_future:
  "p_type no_interval = ''interval'' \<and> p_interval no_interval = None
   \<and> p_startTime no_interval = clock at_start_time
   \<and> fst (scheduleBulk utc_add_days [''clip1'', ''clip2''] no_interval at_start_time)
       = Inl InvalidTime
   \<and> schedules (snd (scheduleBulk utc_add_days [''clip1'', ''clip2''] no_interval at_start_time))
       = []
   \<and> timers (snd (scheduleBulk utc_add_days [''clip1'', ''clip2''] no_interval at_start_time))
       = []"
  by (simp add: scheduleBulk_def bulk_time_def no_interval_def at_start_time_def fresh_def
      index_times_interval_def scheduleUpload_past valid_date_def date_limit_def)

text \<open>
  C10 (amended): with the interval pattern and no interval,
  \<^verbatim>\<open>index * interval\<close> is 0 for every index, so the missing interval raises no
  error of its own: the call does exactly what it does for the interval 0.
  When the start time is a valid date after the current time, the call
  raises no error and schedules every upload of the batch at exactly the
  start time: the returned entries, the stored records and the timers all
  carry the start time.
\<close>

theorem scheduleBulk_interval_absent:
  assumes "p_type p = ''interval''" and "p_interval p = None"
  shows "index_times_interval index (p_interval p) = 0
       \<and> scheduleBulk add_days uploads p s
           = scheduleBulk add_days uploads (p\<lparr>p_interval := Some 0\<rparr>) s
       \<and> (clock s < p_startTime p \<and> valid_date (p_startTime p) \<longrightarrow>
            fst (scheduleBulk add_days uploads p s) =
              Inr (map (\<lambda>i. \<lparr>si_scheduleId = next_uuid s + i,
                               si_scheduledTime = p_startTime p,
                               si_status = ''scheduled''\<rparr>) [0..<length uploads])
          \<and> (\<forall>i<length uploads.
                map_of (schedules (snd (scheduleBulk add_days uploads p s))) (next_uuid s + i)
                  = Some \<lparr>s_id = next_uuid s + i, uploadData = uploads ! i,
                          scheduledTime = p_startTime p, timezone = pattern_timezone p,
                          status = Scheduled, createdAt = clock s, result = None,
                          completedAt = None, error = None, failedAt = None,
                          cancelledAt = None\<rparr>)
          \<and> timers (snd (scheduleBulk add_days uploads p s))
               = timers s @ map (\<lambda>i. \<lparr>t_handle = next_handle s + i, t_sid = next_uuid s + i,
                                         t_at = p_startTime p\<rparr>) [0..<length uploads])"
proof -
  have z: "index_times_interval i (p_interval p) = 0" for i
    using assms(2) by (simp add: index_times_interval_def)
  have same_time: "bulk_time add_days (p\<lparr>p_interval := Some 0\<rparr>) i = bulk_time add_days p i" for i
    using assms by (simp add: bulk_time_def index_times_interval_def pattern_timezone_def)
  have same_loop: "bulk_loop add_days (p\<lparr>p_interval := Some 0\<rparr>) us i rs st
                 = bulk_loop add_days p us i rs st" for us i rs st
    by (induction us arbitrary: i rs st)
       (simp_all add: same_time pattern_timezone_def cong: sum.case_cong if_cong)
  have future: "fst (scheduleBulk add_days uploads p s) =
              Inr (map (\<lambda>i. \<lparr>si_scheduleId = next_uuid s + i,
                               si_scheduledTime = p_startTime p,
                               si_status = ''scheduled''\<rparr>) [0..<length uploads])
          \<and> (\<forall>i<length uploads.
                map_of (schedules (snd (scheduleBulk add_days uploads p s))) (next_uuid s + i)
                  = Some \<lparr>s_id = next_uuid s + i, uploadData = uploads ! i,
                          scheduledTime = p_startTime p, timezone = pattern_timezone p,
                          status = Scheduled, createdAt = clock s, result = None,
                          completedAt = None, error = None, failedAt = None,
                          cancelledAt = None\<rparr>)
          \<and> timers (snd (scheduleBulk add_days uploads p s))
               = timers s @ map (\<lambda>i. \<lparr>t_handle = next_handle s + i, t_sid = next_uuid s + i,
                                         t_at = p_startTime p\<rparr>) [0..<length uploads]"
    if "clock s < p_startTime p" and "valid_date (p_startTime p)"
  proof -
    have ok: "\<forall>i<length uploads. bulk_time add_days p (0 + i) = Inr ((\<lambda>i. p_startTime p) (0 + i))
                              \<and> clock s < (\<lambda>i. p_startTime p) (0 + i)
                              \<and> valid_date ((\<lambda>i. p_startTime p) (0 + i))"
      using assms(1) that by (simp add: bulk_time_interval z)
    show ?thesis
      unfolding scheduleBulk_def
      using bulk_loop_all_scheduled [OF ok, of "[]"] bulk_loop_store [OF ok, of "[]"]
      by (simp add: new_schedule_def)
  qed
  have same: "scheduleBulk add_days uploads p s
                = scheduleBulk add_days uploads (p\<lparr>p_interval := Some 0\<rparr>) s"
    by (simp add: scheduleBulk_def same_loop)
  show ?thesis using z [of index] same future by blast
qed

theorem scheduleBulk_interval_absent_witness:
  "p_type no_interval = ''interval'' \<and> p_interval no_interval = None
   \<and> p_startTime no_interval = 1000 \<and> clock fresh = 0
   \<and> fst (scheduleBulk utc_add_days [''clip1'', ''clip2''] no_interval fresh)
     = Inr [\<lparr>si_scheduleId = 0, si_scheduledTime = 1000, si_status = ''scheduled''\<rparr>,
            \<lparr>si_scheduleId = 1, si_scheduledTime = 1000, si_status = ''scheduled''\<rparr>]
   \<and> map (\<lambda>e. (fst e, uploadData (snd e), scheduledTime (snd e), status (snd e)))
       (schedules (snd (scheduleBulk utc_add_days [''clip1'', ''clip2''] no_interval fresh)))
     = [(0, ''clip1'', 1000, Scheduled), (1, ''clip2'', 1000, Scheduled)]
   \<and> map t_at (timers (snd (scheduleBulk utc_add_days [''clip1'', ''clip2''] no_interval fresh)))
     = [1000, 1000]"
proof -
  have h: "p_type no_interval = ''interval''" "p_interval no_interval = None"
    by (simp_all add: no_interval_def)
  have fut: "clock fresh < p_startTime no_interval \<and> valid_date (p_startTime no_interval)"
    by (simp add: no_interval_def fresh_def valid_date_def date_limit_def)
  note th = scheduleBulk_interval_absent [OF h, of 0 utc_add_days "[''clip1'', ''clip2'']" fresh,
      THEN conjunct2, THEN conjunct2, rule_format, OF fut]
  have r: "fst (scheduleBulk utc_add_days [''clip1'', ''clip2''] no_interval fresh)
     = Inr [\<lparr>si_scheduleId = 0, si_scheduledTime = 1000, si_status = ''scheduled''\<rparr>,
            \<lparr>si_scheduleId = 1, si_scheduledTime = 1000, si_status = ''scheduled''\<rparr>]"
    using th by (simp add: no_interval_def fresh_def upt_rec)
  have tm: "map t_at (timers (snd (scheduleBulk utc_add_days [''clip1'', ''clip2''] no_interval fresh)))
     = [1000, 1000]"
    using th by (simp add: no_interval_def fresh_def upt_rec)
  have st: "map (\<lambda>e. (fst e, uploadData (snd e), scheduledTime (snd e), status (snd e)))
       (schedules (snd (scheduleBulk utc_add_days [''clip1'', ''clip2''] no_interval fresh)))
     = [(0, ''clip1'', 1000, Scheduled), (1, ''clip2'', 1000, Scheduled)]"
    by (simp add: scheduleBulk_def bulk_time_def no_interval_def fresh_def
        index_times_interval_def scheduleUpload_future valid_date_def
        date_limit_def pattern_timezone_def new_schedule_def)
  show ?thesis
    using h r st tm by (simp add: no_interval_def fresh_def)
qed

text \<open>
  A computed time that leaves the range of \<^verbatim>\<open>Date\<close> ends the call with
  \<^verbatim>\<open>RangeError\<close>; what the earlier rounds scheduled stays.
\<close>

lemma scheduleBulk_beyond_date_range:
  "fst (scheduleBulk utc_add_days [''clip1'', ''clip2''] hourly_at_the_limit fresh) = Inl RangeError
   \<and> map (\<lambda>e. (fst e, uploadData (snd e), scheduledTime (snd e), status (snd e)))
       (schedules (snd (scheduleBulk utc_add_days [''clip1'', ''clip2''] hourly_at_the_limit fresh)))
     = [(0, ''clip1'', date_limit - 1000, Scheduled)]"
  by (simp add: scheduleBulk_def bulk_time_def hourly_at_the_limit_def fresh_def
      index_times_interval_def hour_ms_def scheduleUpload_future valid_date_def
      date_limit_def pattern_timezone_def new_schedule_def)

subsection \<open>Process start\<close>

lemma rescheduleJob_future:
  assumes "clock s < scheduledTime d"
  shows "rescheduleJob i d s =
           s\<lparr>timers := timers s @ [\<lparr>t_handle = next_handle s, t_sid = i, t_at = scheduledTime d\<rparr>],
             next_handle := Suc (next_handle s),
             jobs := (jobs s)(i \<mapsto> Some (next_handle s))\<rparr>"
  using assms by (simp add: rescheduleJob_def scheduleJob_def)

text \<open>
  The \<^verbatim>\<open>forEach\<close> of \<^verbatim>\<open>loadSchedules\<close> only arms timers: one for each entry
  that is scheduled for a later time, in order.
\<close>

lemma reschedule_active_effect:
  "schedules (reschedule_active data s) = schedules s
   \<and> clock (reschedule_active data s) = clock s
   \<and> disk (reschedule_active data s) = disk s
   \<and> fs_ok (reschedule_active data s) = fs_ok s
   \<and> pending (reschedule_active data s) = pending s
   \<and> queue_log (reschedule_active data s) = queue_log s
   \<and> next_uuid (reschedule_active data s) = next_uuid s
   \<and> map (\<lambda>t. (t_sid t, t_at t)) (timers (reschedule_active data s))
       = map (\<lambda>t. (t_sid t, t_at t)) (timers s)
         @ map (\<lambda>e. (fst e, scheduledTime (snd e)))
             (filter (\<lambda>e. status (snd e) = Scheduled \<and> clock s < scheduledTime (snd e)) data)"
proof (induction data arbitrary: s)
  case Nil
  show ?case by simp
next
  case (Cons e data)
  obtain i d where e: "e = (i, d)" by (cases e)
  show ?case
  proof (cases "status d = Scheduled \<and> clock s < scheduledTime d")
    case True
    then show ?thesis
      using Cons.IH [of "rescheduleJob i d s"] by (simp add: e rescheduleJob_future)
  next
    case False
    then show ?thesis using Cons.IH [of s] by (auto simp: e)
  qed
qed

text \<open>
  C9: on process start with a readable file, the records are loaded
  unchanged; the timers armed are exactly one per record that is scheduled
  for a time after the current time, in file order, each for that record's
  own time. So such a record has a timer at its original time, and a record
  that is scheduled for a time that is not in the future remains scheduled,
  with no timer; nothing is handed to the job queue.
\<close>

theorem start_rearms_future_only:
  assumes "disk s = Json data"
  shows "schedules (start s) = data
       \<and> map (\<lambda>t. (t_sid t, t_at t)) (timers (start s))
           = map (\<lambda>e. (fst e, scheduledTime (snd e)))
               (filter (\<lambda>e. status (snd e) = Scheduled \<and> clock s < scheduledTime (snd e)) data)
       \<and> (\<forall>e \<in> set data. status (snd e) = Scheduled \<and> clock s < scheduledTime (snd e) \<longrightarrow>
             (\<exists>t \<in> set (timers (start s)). t_sid t = fst e \<and> t_at t = scheduledTime (snd e)))
       \<and> (\<forall>e \<in> set data. distinct (map fst data) \<and> status (snd e) = Scheduled
              \<and> scheduledTime (snd e) \<le> clock s \<longrightarrow>
             map_of (schedules (start s)) (fst e) = Some (snd e)
             \<and> (\<forall>t \<in> set (timers (start s)). t_sid t \<noteq> fst e))
       \<and> queue_log (start s) = queue_log s
       \<and> disk (start s) = disk s
       \<and> clock (start s) = clock s"
proof -
  let ?s0 = "s\<lparr>schedules := [], jobs := Map.empty, timers := [], pending := []\<rparr>"
  let ?active = "\<lambda>e. status (snd e) = Scheduled \<and> clock s < scheduledTime (snd e)"
  have st: "start s = reschedule_active data (?s0\<lparr>schedules := data\<rparr>)"
    using assms by (simp add: start_def loadSchedules_def)
  note eff = reschedule_active_effect [of data "?s0\<lparr>schedules := data\<rparr>", folded st]
  have tm: "map (\<lambda>t. (t_sid t, t_at t)) (timers (start s))
              = map (\<lambda>e. (fst e, scheduledTime (snd e))) (filter ?active data)"
    using eff by simp
  have armed: "\<exists>t \<in> set (timers (start s)). t_sid t = fst e \<and> t_at t = scheduledTime (snd e)"
    if "e \<in> set data" and "?active e" for e
  proof -
    have "(fst e, scheduledTime (snd e))
            \<in> set (map (\<lambda>e. (fst e, scheduledTime (snd e))) (filter ?active data))"
      using that by force
    then have "(fst e, scheduledTime (snd e)) \<in> set (map (\<lambda>t. (t_sid t, t_at t)) (timers (start s)))"
      by (simp only: tm)
    then show ?thesis by auto
  qed
  have stuck: "map_of (schedules (start s)) (fst e) = Some (snd e)
             \<and> (\<forall>t \<in> set (timers (start s)). t_sid t \<noteq> fst e)"
    if "e \<in> set data" and d: "distinct (map fst data)" and past: "scheduledTime (snd e) \<le> clock s"
    for e
  proof -
    have look: "map_of (schedules (start s)) (fst e) = Some (snd e)"
      using eff that by (cases e) simp
    have "t_sid t \<noteq> fst e" if t: "t \<in> set (timers (start s))" for t
    proof
      assume same: "t_sid t = fst e"
      have "(t_sid t, t_at t) \<in> set (map (\<lambda>t. (t_sid t, t_at t)) (timers (start s)))"
        using t by force
      then have "(t_sid t, t_at t)
            \<in> set (map (\<lambda>e. (fst e, scheduledTime (snd e))) (filter ?active data))"
        by (simp only: tm)
      then obtain e' where e': "e' \<in> set data" "?active e'" "fst e' = fst e"
        using same by auto
      have "e' = e"
        using d e'(1,3) \<open>e \<in> set data\<close> by (metis eq_key_imp_eq_value prod.collapse)
      with e'(2) past show False by simp
    qed
    with look show ?thesis by blast
  qed
  show ?thesis using st eff tm armed stuck by simp
qed

theorem start_rearms_future_only_witness:
  "disk after_downtime = Json [(0, new_schedule 0 ''late'' 500 ''UTC'' 0),
                               (1, new_schedule 1 ''soon'' 5000 ''UTC'' 0)]
   \<and> clock after_downtime = 1000
   \<and> timers (start after_downtime) = [\<lparr>t_handle = 0, t_sid = 1, t_at = 5000\<rparr>]
   \<and> map (\<lambda>e. (fst e, status (snd e))) (schedules (start after_downtime))
       = [(0, Scheduled), (1, Scheduled)]
   \<and> queue_log (start after_downtime) = []"
  using start_rearms_future_only [of after_downtime
      "[(0, new_schedule 0 ''late'' 500 ''UTC'' 0), (1, new_schedule 1 ''soon'' 5000 ''UTC'' 0)]"]
  by (simp add: after_downtime_def start_def loadSchedules_def new_schedule_def
      rescheduleJob_def scheduleJob_def)

subsection \<open>A timer fires\<close>

lemma update_other_entries:
  "e \<in> set (AList.update k v al) \<Longrightarrow> e = (k, v) \<or> e \<in> set al"
  by (induction al) (auto split: if_splits)

lemma update_own_entry:
  "distinct (map fst al) \<Longrightarrow> e \<in> set (AList.update k v al) \<Longrightarrow> fst e = k \<Longrightarrow> e = (k, v)"
  by (induction al) (auto split: if_splits simp: rev_image_eqI)





subsection \<open>Cancelling\<close>

lemma not_scheduled_update:
  assumes "not_scheduled i al" and "k = i \<Longrightarrow> status v \<noteq> Scheduled"
  shows "not_scheduled i (AList.update k v al)"
  unfolding not_scheduled_def
proof
  fix e assume "e \<in> set (AList.update k v al)"
  then have "e = (k, v) \<or> e \<in> set al" by (rule update_other_entries)
  then show "fst e = i \<longrightarrow> status (snd e) \<noteq> Scheduled"
    using assms by (auto simp: not_scheduled_def)
qed

lemma disarmed_saveSchedules:
  "disarmed i s \<Longrightarrow> disarmed i (saveSchedules s)"
  by (simp add: disarmed_def saveSchedules_def)

lemma disarmed_scheduleUpload:
  assumes "disarmed i s"
  shows "disarmed i (snd (scheduleUpload upload t tz s))
       \<and> queue_log (snd (scheduleUpload upload t tz s)) = queue_log s"
proof (cases "t \<le> clock s")
  case True
  then show ?thesis using assms by (simp add: scheduleUpload_past disarmed_def)
next
  case False
  then have fut: "clock s < t" by simp
  have ne: "next_uuid s \<noteq> i" using assms by (simp add: disarmed_def)
  have ns: "not_scheduled i (AList.update (next_uuid s)
              (new_schedule (next_uuid s) upload t tz (clock s)) (schedules s))"
    using assms ne by (intro not_scheduled_update) (simp_all add: disarmed_def)
  show ?thesis
    using assms ne ns by (simp add: scheduleUpload_future [OF fut] disarmed_def)
qed

lemma disarmed_bulk_loop:
  assumes "disarmed i s"
  shows "disarmed i (snd (bulk_loop add_days p us index results s))
       \<and> queue_log (snd (bulk_loop add_days p us index results s)) = queue_log s"
  using assms
proof (induction us arbitrary: index results s)
  case Nil
  then show ?case by simp
next
  case (Cons u us)
  show ?case
  proof (cases "bulk_time add_days p index")
    case (Inl e)
    then show ?thesis using Cons.prems by simp
  next
    case (Inr t)
    show ?thesis
    proof (cases "valid_date t")
      case False
      then show ?thesis using Inr Cons.prems by (simp add: disarmed_def)
    next
      case valid: True
      obtain r s' where su: "scheduleUpload u t (pattern_timezone p) s = (r, s')"
        by (cases "scheduleUpload u t (pattern_timezone p) s")
      have s': "disarmed i s'" "queue_log s' = queue_log s"
        using disarmed_scheduleUpload [OF Cons.prems, of u t "pattern_timezone p"] su by simp_all
      show ?thesis
      proof (cases r)
        case (Inl e)
        then show ?thesis using Inr valid su s' by simp
      next
        case (Inr info)
        then show ?thesis
          using \<open>bulk_time add_days p index = Inr t\<close> valid su s' Cons.IH [OF s'(1)] by simp
      qed
    qed
  qed
qed

lemma disarmed_cancelSchedule:
  assumes "disarmed i s"
  shows "disarmed i (cancelSchedule j s)
       \<and> queue_log (cancelSchedule j s) = queue_log s"
proof -
  let ?s1 = "case jobs s j of
               Some (Some h) \<Rightarrow> (job_cancel h s)\<lparr>jobs := (jobs s)(j := None)\<rparr>
             | _ \<Rightarrow> s"
  have s1: "disarmed i ?s1" "queue_log ?s1 = queue_log s" "schedules ?s1 = schedules s"
    using assms by (auto simp: disarmed_def job_cancel_def split: option.splits)
  show ?thesis
  proof (cases "map_of (schedules s) j")
    case None
    then show ?thesis using s1 by (simp add: cancelSchedule_def Let_def)
  next
    case (Some d)
    have ns: "not_scheduled i (AList.update j (d\<lparr>status := Cancelled, cancelledAt := Some (clock ?s1)\<rparr>)
                                 (schedules ?s1))"
      using s1(1) by (intro not_scheduled_update) (simp_all add: disarmed_def)
    have "disarmed i (saveSchedules (?s1\<lparr>schedules :=
             AList.update j (d\<lparr>status := Cancelled, cancelledAt := Some (clock ?s1)\<rparr>)
               (schedules ?s1)\<rparr>))"
      using s1(1) ns by (intro disarmed_saveSchedules) (simp add: disarmed_def)
    then show ?thesis
      using Some s1 by (simp add: cancelSchedule_def Let_def saveSchedules_def)
  qed
qed

lemma disarmed_reschedule_other:
  assumes "disarmed i s" and "j \<noteq> i"
  shows "disarmed i (snd (reschedule j t tz s))
       \<and> queue_log (snd (reschedule j t tz s)) = queue_log s"
proof (cases "map_of (schedules s) j")
  case None
  then show ?thesis using assms by (simp add: reschedule_def)
next
  case (Some d)
  let ?s1 = "case jobs s j of Some (Some h) \<Rightarrow> job_cancel h s | _ \<Rightarrow> s"
  let ?d' = "d\<lparr>scheduledTime := t, timezone := tz, status := Scheduled\<rparr>"
  let ?s2 = "saveSchedules (?s1\<lparr>schedules := AList.update j ?d' (schedules ?s1)\<rparr>)"
  have s1: "disarmed i ?s1" "queue_log ?s1 = queue_log s"
    using assms by (auto simp: disarmed_def job_cancel_def split: option.splits)
  have ns: "not_scheduled i (AList.update j ?d' (schedules ?s1))"
    using s1(1) assms(2) by (intro not_scheduled_update) (simp_all add: disarmed_def)
  have s2: "disarmed i ?s2"
    using s1(1) ns by (intro disarmed_saveSchedules) (simp add: disarmed_def)
  have q2: "queue_log ?s2 = queue_log s" using s1(2) by (simp add: saveSchedules_def)
  have "disarmed i (rescheduleJob j ?d' ?s2) \<and> queue_log (rescheduleJob j ?d' ?s2) = queue_log s"
    using s2 q2 assms(2) by (auto simp: rescheduleJob_def scheduleJob_def disarmed_def)
  then show ?thesis using Some by (simp add: reschedule_def Let_def)
qed

lemma disarmed_cleanOldSchedules:
  assumes "disarmed i s"
  shows "disarmed i (snd (cleanOldSchedules cutoffDate s))
       \<and> queue_log (snd (cleanOldSchedules cutoffDate s)) = queue_log s"
  using assms
  by (auto simp: cleanOldSchedules_def Let_def disarmed_def saveSchedules_def
      not_scheduled_def split: store_file.splits)

lemma disarmed_fire:
  assumes "disarmed i s" and "t \<in> set (timers s)"
  shows "disarmed i (fire t s) \<and> submitted_from i (fire t s) = submitted_from i s"
proof -
  have ne: "t_sid t \<noteq> i" using assms by (auto simp: disarmed_def)
  let ?s0 = "s\<lparr>timers := remove1 t (timers s)\<rparr>"
  have s0: "disarmed i ?s0"
    using assms(1) by (auto simp: disarmed_def dest: notin_set_remove1)
  show ?thesis
  proof (cases "map_of (schedules s) (t_sid t)")
    case None
    then show ?thesis using s0 by (simp add: fire_def executeUpload_begin_def submitted_from_def)
  next
    case (Some d)
    have ns: "not_scheduled i (AList.update (t_sid t) (d\<lparr>status := Executing\<rparr>) (schedules ?s0))"
      using s0 by (intro not_scheduled_update) (simp_all add: disarmed_def)
    have "disarmed i (saveSchedules (?s0\<lparr>schedules :=
             AList.update (t_sid t) (d\<lparr>status := Executing\<rparr>) (schedules ?s0)\<rparr>))"
      using s0 ns by (intro disarmed_saveSchedules) (simp add: disarmed_def)
    then show ?thesis
      using Some ne
      by (simp add: fire_def executeUpload_begin_def Let_def submitted_from_def
          disarmed_def saveSchedules_def)
  qed
qed

lemma disarmed_executeUpload_finish:
  assumes "disarmed i s"
  shows "disarmed i (executeUpload_finish j out s)
       \<and> queue_log (executeUpload_finish j out s) = queue_log s"
proof -
  let ?s1 = "case map_of (schedules s) j of
               None \<Rightarrow> s
             | Some d \<Rightarrow> s\<lparr>schedules := AList.update j (settle (clock s) out d) (schedules s)\<rparr>"
  have st: "status (settle now out d) \<noteq> Scheduled" for now and d :: "'a schedule"
    by (cases out) (simp_all add: settle_def)
  have s1: "disarmed i ?s1"
  proof (cases "map_of (schedules s) j")
    case None
    then show ?thesis using assms by simp
  next
    case (Some d)
    have "not_scheduled i (AList.update j (settle (clock s) out d) (schedules s))"
      using assms st by (intro not_scheduled_update) (simp_all add: disarmed_def)
    then show ?thesis using Some assms by (simp add: disarmed_def)
  qed
  have q1: "queue_log ?s1 = queue_log s" by (simp split: option.split)
  have "disarmed i (saveSchedules ?s1)" using s1 by (rule disarmed_saveSchedules)
  then show ?thesis
    using q1 by (simp add: executeUpload_finish_def Let_def disarmed_def saveSchedules_def)
qed

lemma disarmed_start:
  assumes "disarmed i s"
  shows "disarmed i (start s) \<and> queue_log (start s) = queue_log s"
proof (cases "disk s")
  case Missing
  then show ?thesis using assms by (simp add: start_def loadSchedules_def disarmed_def not_scheduled_def)
next
  case Corrupt
  then show ?thesis using assms by (simp add: start_def loadSchedules_def disarmed_def not_scheduled_def)
next
  case (Json data)
  have ns: "not_scheduled i data" using assms Json by (simp add: disarmed_def)
  let ?s0 = "s\<lparr>schedules := [], jobs := Map.empty, timers := [], pending := [], schedules := data\<rparr>"
  have st: "start s = reschedule_active data ?s0"
    using Json by (simp add: start_def loadSchedules_def)
  note eff = reschedule_active_effect [of data ?s0, folded st]
  have tm: "map (\<lambda>t. (t_sid t, t_at t)) (timers (start s))
           = map (\<lambda>e. (fst e, scheduledTime (snd e)))
               (filter (\<lambda>e. status (snd e) = Scheduled \<and> clock s < scheduledTime (snd e)) data)"
    using eff by simp
  have nt: "t_sid t \<noteq> i" if "t \<in> set (timers (start s))" for t
  proof
    assume "t_sid t = i"
    have "(t_sid t, t_at t) \<in> set (map (\<lambda>t. (t_sid t, t_at t)) (timers (start s)))"
      using that by force
    then have "(t_sid t, t_at t) \<in> set (map (\<lambda>e. (fst e, scheduledTime (snd e)))
               (filter (\<lambda>e. status (snd e) = Scheduled \<and> clock s < scheduledTime (snd e)) data))"
      by (simp only: tm)
    then obtain e where "e \<in> set data" "status (snd e) = Scheduled" "fst e = i"
      using \<open>t_sid t = i\<close> by auto
    with ns show False by (auto simp: not_scheduled_def)
  qed
  have fields: "schedules (start s) = data" "disk (start s) = disk s"
    "queue_log (start s) = queue_log s" "next_uuid (start s) = next_uuid s"
    using eff by simp_all
  show ?thesis
    using assms ns nt fields Json by (simp add: disarmed_def)
qed

lemma disarmed_step:
  assumes "disarmed i s" and "\<not> reschedules i a" and "step add_days a s = Some s'"
  shows "disarmed i s' \<and> submitted_from i s' = submitted_from i s"
proof (cases a)
  case (ScheduleUpload upload t tz)
  then show ?thesis
    using assms disarmed_scheduleUpload [OF assms(1), of upload t tz]
    by (auto simp: submitted_from_def)
next
  case (ScheduleBulk uploads p)
  then show ?thesis
    using assms disarmed_bulk_loop [OF assms(1), of add_days p uploads 0 "[]"]
    by (auto simp: submitted_from_def scheduleBulk_def)
next
  case (CancelSchedule j)
  then show ?thesis
    using assms disarmed_cancelSchedule [OF assms(1), of j]
    by (auto simp: submitted_from_def)
next
  case (Reschedule j t tz)
  then have "j \<noteq> i" using assms(2) by simp
  then show ?thesis
    using Reschedule assms disarmed_reschedule_other [OF assms(1), of j t tz]
    by (auto simp: submitted_from_def)
next
  case (CleanOldSchedules cutoffDate)
  then show ?thesis
    using assms disarmed_cleanOldSchedules [OF assms(1), of cutoffDate]
    by (auto simp: submitted_from_def)
next
  case (TimePasses ms)
  then show ?thesis using assms by (auto simp: submitted_from_def disarmed_def)
next
  case (TimerFires t)
  then have "t \<in> set (timers s)" "s' = fire t s"
    using assms(3) by (auto split: if_splits)
  then show ?thesis using disarmed_fire [OF assms(1), of t] by simp
next
  case (UploadSettles j out)
  then have "s' = executeUpload_finish j out s"
    using assms(3) by (auto split: if_splits)
  then show ?thesis
    using disarmed_executeUpload_finish [OF assms(1), of j out]
    by (simp add: submitted_from_def)
next
  case ProcessStarts
  then show ?thesis
    using assms disarmed_start [OF assms(1)] by (auto simp: submitted_from_def)
next
  case (DiskWritable b)
  then show ?thesis using assms by (auto simp: submitted_from_def disarmed_def)
qed

lemma disarmed_run:
  assumes "disarmed i s" and "\<forall>a \<in> set as. \<not> reschedules i a"
    and "run add_days as s = Some s'"
  shows "disarmed i s' \<and> submitted_from i s' = submitted_from i s"
  using assms
proof (induction as arbitrary: s)
  case Nil
  then show ?case by simp
next
  case (Cons a as)
  from Cons.prems(3) obtain s1 where s1: "step add_days a s = Some s1"
    and rest: "run add_days as s1 = Some s'"
    by (auto split: option.splits)
  have a: "\<not> reschedules i a" using Cons.prems(2) by simp
  have d1: "disarmed i s1" "submitted_from i s1 = submitted_from i s"
    using disarmed_step [OF Cons.prems(1) a s1] by simp_all
  have "disarmed i s' \<and> submitted_from i s' = submitted_from i s1"
    using Cons.IH [OF d1(1) _ rest] Cons.prems(2) by simp
  with d1(2) show ?case by simp
qed

text \<open>
  C4 (as stated, refuted): a schedule is created, then cancelled, then
  rescheduled; when the new time has come its timer fires and the upload is
  handed to the job queue.
\<close>

theorem cancelled_then_rescheduled_fires:
  "map_option status (map_of (schedules one_scheduled) 0) = Some Scheduled
   \<and> map_option status (map_of (schedules (cancelSchedule 0 one_scheduled)) 0) = Some Cancelled
   \<and> timers (cancelSchedule 0 one_scheduled) = []
   \<and> submitted_from 0 (cancelSchedule 0 one_scheduled) = []
   \<and> map_option (submitted_from 0)
       (run utc_add_days
          [Reschedule 0 5000 ''UTC'', TimePasses 5000,
           TimerFires \<lparr>t_handle = 1, t_sid = 0, t_at = 5000\<rparr>]
          (cancelSchedule 0 one_scheduled)) = Some [''clip'']"
  by (simp add: one_scheduled_def fresh_def scheduleUpload_future new_schedule_def
      cancelSchedule_def job_cancel_def saveSchedules_def reschedule_def rescheduleJob_def
      scheduleJob_def fire_def executeUpload_begin_def submitted_from_def Let_def)

text \<open>
  C4 (amended): let a schedule be in status scheduled, its record unique in
  the map, every armed timer for it be the one stored in \<^verbatim>\<open>this.jobs\<close>, and
  the file be writable. Then \<^verbatim>\<open>cancelSchedule\<close> sets its status to cancelled,
  records \<^verbatim>\<open>cancelledAt\<close>, and leaves no armed timer for it; and whatever
  happens afterwards (operations, time passing, timers firing, uploads
  settling, process restarts), as long as \<^verbatim>\<open>reschedule\<close> is not called for it, no
  upload is handed to the job queue from it and no timer is armed for it.
\<close>

theorem cancelSchedule_disarms:
  assumes "map_of (schedules (s :: 'u scheduler)) i = Some d" and "status d = Scheduled"
    and "distinct (map fst (schedules s))"
    and "\<forall>t \<in> set (timers s). t_sid t = i \<longrightarrow> jobs s i = Some (Some (t_handle t))"
    and "fs_ok s" and "i < next_uuid s"
  shows "map_of (schedules (cancelSchedule i s)) i
           = Some (d\<lparr>status := Cancelled, cancelledAt := Some (clock s)\<rparr>)
       \<and> (\<forall>t \<in> set (timers (cancelSchedule i s)). t_sid t \<noteq> i)
       \<and> (\<forall>h. jobs (cancelSchedule i s) i \<noteq> Some (Some h))
       \<and> submitted_from i (cancelSchedule i s) = submitted_from i s
       \<and> (\<forall>as (s' :: 'u scheduler).
             (\<forall>a \<in> set as. \<not> reschedules i a)
             \<and> run add_days as (cancelSchedule i s) = Some s' \<longrightarrow>
             submitted_from i s' = submitted_from i s
             \<and> (\<forall>t \<in> set (timers s'). t_sid t \<noteq> i))"
proof -
  let ?s1 = "case jobs s i of
               Some (Some h) \<Rightarrow> (job_cancel h s)\<lparr>jobs := (jobs s)(i := None)\<rparr>
             | _ \<Rightarrow> s"
  let ?d' = "d\<lparr>status := Cancelled, cancelledAt := Some (clock s)\<rparr>"
  have s1: "schedules ?s1 = schedules s" "clock ?s1 = clock s" "fs_ok ?s1"
    "queue_log ?s1 = queue_log s" "next_uuid ?s1 = next_uuid s"
    using assms(5) by (simp_all add: job_cancel_def split: option.split)
  have cs: "cancelSchedule i s = saveSchedules (?s1\<lparr>schedules := AList.update i ?d' (schedules s)\<rparr>)"
    using assms(1) s1 by (simp add: cancelSchedule_def Let_def)
  have nt1: "t_sid t \<noteq> i" if "t \<in> set (timers ?s1)" for t
  proof (cases "jobs s i")
    case None
    then show ?thesis using that assms(4) by auto
  next
    case (Some job)
    show ?thesis
    proof (cases job)
      case None
      then show ?thesis using that assms(4) Some by auto
    next
      case (Some h)
      then show ?thesis
        using that assms(4) \<open>jobs s i = Some job\<close> by (auto simp: job_cancel_def)
    qed
  qed
  have nj: "jobs ?s1 i \<noteq> Some (Some h)" for h
    by (simp split: option.split)
  have c1: "map_of (schedules (cancelSchedule i s)) i = Some ?d'"
    by (simp add: cs saveSchedules_def s1 update_conv)
  have c2: "\<forall>t \<in> set (timers (cancelSchedule i s)). t_sid t \<noteq> i"
    using nt1 by (simp add: cs saveSchedules_def s1)
  have c3: "jobs (cancelSchedule i s) i \<noteq> Some (Some h)" for h
    using nj [of h] by (simp add: cs saveSchedules_def s1)
  have c4: "submitted_from i (cancelSchedule i s) = submitted_from i s"
    by (simp add: cs saveSchedules_def s1 submitted_from_def)
  have ns: "not_scheduled i (AList.update i ?d' (schedules s))"
    unfolding not_scheduled_def
  proof (intro ballI impI)
    fix e assume "e \<in> set (AList.update i ?d' (schedules s))" and "fst e = i"
    then have "e = (i, ?d')" using update_own_entry [OF assms(3)] by blast
    then show "status (snd e) \<noteq> Scheduled" by simp
  qed
  have dis: "disarmed i (cancelSchedule i s)"
    using c2 ns assms(6) by (simp add: disarmed_def cs saveSchedules_def s1)
  have c5: "submitted_from i s' = submitted_from i s \<and> (\<forall>t \<in> set (timers s'). t_sid t \<noteq> i)"
    if "\<forall>a \<in> set as. \<not> reschedules i a" and "run add_days as (cancelSchedule i s) = Some s'"
    for as and s' :: "'u scheduler"
    using disarmed_run [OF dis that] c4 by (simp add: disarmed_def)
  show ?thesis using c1 c2 c3 c4 c5 by blast
qed

theorem cancelSchedule_disarms_witness:
  "map_option status (map_of (schedules one_scheduled) 0) = Some Scheduled
   \<and> timers one_scheduled = [\<lparr>t_handle = 0, t_sid = 0, t_at = 1000\<rparr>]
   \<and> jobs one_scheduled 0 = Some (Some 0)
   \<and> map_option status (map_of (schedules (cancelSchedule 0 one_scheduled)) 0) = Some Cancelled
   \<and> map_option cancelledAt (map_of (schedules (cancelSchedule 0 one_scheduled)) 0)
       = Some (Some 0)
   \<and> map_option (submitted_from 0)
       (run utc_add_days [TimePasses 2000, ProcessStarts, TimePasses 2000]
          (cancelSchedule 0 one_scheduled)) = Some []"
proof -
  let ?d = "new_schedule 0 ''clip'' 1000 ''UTC'' 0"
  let ?as = "[TimePasses 2000, ProcessStarts, TimePasses 2000] :: string action list"
  have os: "one_scheduled = fresh\<lparr>next_uuid := 1, schedules := [(0, ?d)], disk := Json [(0, ?d)],
                                  timers := [\<lparr>t_handle = 0, t_sid = 0, t_at = 1000\<rparr>],
                                  next_handle := 1, jobs := [0 \<mapsto> Some 0]\<rparr>"
    by (simp add: one_scheduled_def fresh_def scheduleUpload_future)
  have h: "map_of (schedules one_scheduled) 0 = Some ?d" "status ?d = Scheduled"
    "distinct (map fst (schedules one_scheduled))"
    "\<forall>t \<in> set (timers one_scheduled). t_sid t = 0 \<longrightarrow> jobs one_scheduled 0 = Some (Some (t_handle t))"
    "fs_ok one_scheduled" "0 < next_uuid one_scheduled"
    by (simp_all add: os fresh_def new_schedule_def)
  note th = cancelSchedule_disarms [OF h, of utc_add_days]
  have c1: "map_of (schedules (cancelSchedule 0 one_scheduled)) 0
              = Some (?d\<lparr>status := Cancelled, cancelledAt := Some (clock one_scheduled)\<rparr>)"
    using th by blast
  obtain s' where r: "run utc_add_days ?as (cancelSchedule 0 one_scheduled) = Some s'"
    by simp
  have nr: "\<forall>a \<in> set ?as. \<not> reschedules 0 a" by simp
  have "submitted_from 0 s' = submitted_from 0 one_scheduled"
    using th nr r by blast
  then have c2: "map_option (submitted_from 0)
       (run utc_add_days ?as (cancelSchedule 0 one_scheduled)) = Some []"
    unfolding r by (simp add: os fresh_def submitted_from_def)
  show ?thesis
    unfolding c1 using c2 by (simp add: os fresh_def new_schedule_def)
qed

text \<open>
  Why the amended claim asks that every armed timer of the schedule be the
  stored one. A call of \<^verbatim>\<open>reschedule\<close> while \<^verbatim>\<open>executeUpload\<close> is suspended arms
  a second timer; the resumed \<^verbatim>\<open>executeUpload\<close> drops it from \<^verbatim>\<open>this.jobs\<close>
  without disarming it. After one more \<^verbatim>\<open>reschedule\<close> the record is scheduled
  again, \<^verbatim>\<open>cancelSchedule\<close> disarms only the third timer, and the second one
  fires later and hands the upload to the job queue a second time.
\<close>

lemma untracked_timer_survives_cancel:
  "map_option (\<lambda>s. map_option status (map_of (schedules s) 0))
     (run utc_add_days
        [TimePasses 1000, TimerFires \<lparr>t_handle = 0, t_sid = 0, t_at = 1000\<rparr>,
         Reschedule 0 5000 ''UTC'', UploadSettles 0 (Inr \<lparr>jobId = 7, ji_status = ''queued''\<rparr>),
         Reschedule 0 6000 ''UTC'']
        one_scheduled) = Some (Some Scheduled)
   \<and> map_option (\<lambda>s. (map_option status (map_of (schedules s) 0), timers s, submitted_from 0 s))
     (run utc_add_days
        [TimePasses 1000, TimerFires \<lparr>t_handle = 0, t_sid = 0, t_at = 1000\<rparr>,
         Reschedule 0 5000 ''UTC'', UploadSettles 0 (Inr \<lparr>jobId = 7, ji_status = ''queued''\<rparr>),
         Reschedule 0 6000 ''UTC'', CancelSchedule 0]
        one_scheduled)
     = Some (Some Cancelled, [\<lparr>t_handle = 1, t_sid = 0, t_at = 5000\<rparr>], [''clip''])
   \<and> map_option (submitted_from 0)
     (run utc_add_days
        [TimePasses 1000, TimerFires \<lparr>t_handle = 0, t_sid = 0, t_at = 1000\<rparr>,
         Reschedule 0 5000 ''UTC'', UploadSettles 0 (Inr \<lparr>jobId = 7, ji_status = ''queued''\<rparr>),
         Reschedule 0 6000 ''UTC'', CancelSchedule 0,
         TimePasses 4000, TimerFires \<lparr>t_handle = 1, t_sid = 0, t_at = 5000\<rparr>]
        one_scheduled) = Some [''clip'', ''clip'']"
  by (simp add: one_scheduled_def fresh_def scheduleUpload_future new_schedule_def
      cancelSchedule_def job_cancel_def saveSchedules_def reschedule_def rescheduleJob_def
      scheduleJob_def fire_def executeUpload_begin_def executeUpload_finish_def settle_def
      submitted_from_def Let_def)

end
